theory Spec2Isabelle
  imports Main "HOL-Library.Word"
begin

section \<open>Beeftext: the substitution engine of BeeftextUtils.cpp\<close>

text \<open>
  A shallow embedding of \<^verbatim>\<open>src/Beeftext/BeeftextUtils.cpp\<close>. The functions of that file
  are translated one by one. What they call outside the file (the Win32 API, Qt, XMiLib's
  input synthesis, the clipboard, input and sensitive-application managers) is not part of
  the sources at hand: those primitives are parameters of the model (record \<open>environment\<close>)
  or are modelled from the specification, each marked as such.
\<close>

subsection \<open>Strings, keys and constants\<close>

text \<open>A \<^verbatim>\<open>QString\<close> is a sequence of UTF-16 code units (\<^verbatim>\<open>QChar\<close>); the null string and
  the empty string are both the empty list. A virtual key code is a \<^verbatim>\<open>quint16\<close>.\<close>

type_synonym QChar = "16 word"
type_synonym QString = "16 word list"
type_synonym key = "16 word"

text \<open>Virtual key codes of \<^verbatim>\<open>WinUser.h\<close>.\<close>

definition VK_BACK :: key where "VK_BACK = 0x08"
definition VK_RETURN :: key where "VK_RETURN = 0x0D"
definition VK_LEFT :: key where "VK_LEFT = 0x25"
definition VK_LWIN :: key where "VK_LWIN = 0x5B"
definition VK_RWIN :: key where "VK_RWIN = 0x5C"
definition VK_LSHIFT :: key where "VK_LSHIFT = 0xA0"
definition VK_RSHIFT :: key where "VK_RSHIFT = 0xA1"
definition VK_LCONTROL :: key where "VK_LCONTROL = 0xA2"
definition VK_RCONTROL :: key where "VK_RCONTROL = 0xA3"
definition VK_LMENU :: key where "VK_LMENU = 0xA4"
definition VK_RMENU :: key where "VK_RMENU = 0xA5"

text \<open>The character literal \<^verbatim>\<open>'V'\<close> and \<^verbatim>\<open>QChar::LineFeed\<close>.\<close>

definition key_V :: key where "key_V = 0x56"
definition LineFeed :: QChar where "LineFeed = 0x000A"

text \<open>Lines 30-32 of BeeftextUtils.cpp.\<close>

definition modifierKeys :: "key list" where
  "modifierKeys = [VK_LCONTROL, VK_RCONTROL, VK_LMENU, VK_RMENU, VK_LSHIFT, VK_RSHIFT, VK_LWIN,
     VK_RWIN]"

definition kObjectReplacementChar :: QChar where
  "kObjectReplacementChar = 0xfffc"

subsection \<open>Exceptions, the world and the environment\<close>

text \<open>
  The handler of \<^verbatim>\<open>performTextSubstitution\<close> is \<^verbatim>\<open>catch (Exception const&)\<close>, with
  \<^verbatim>\<open>using namespace xmilib\<close>: it matches \<^verbatim>\<open>xmilib::Exception\<close> and the classes derived from
  it, and no other C++ exception (\<^verbatim>\<open>std::bad_alloc\<close>, for one). The model keeps the two kinds
  apart.
\<close>

datatype error = Exception | ForeignException

text \<open>The calls to external primitives that have an effect, as they are logged in the trace.\<close>

datatype call =
    SynthesizeBackspaces int
  | SynthesizeKeyDown key
  | SynthesizeKeyUp key
  | SynthesizeKeyDownAndUp key
  | SynthesizeUnicodeKeyDownAndUp "16 word"
  | BackupClipboard
  | SetHtml QString
  | SetText QString
  | RestoreClipboard
  | SingleShotRestoreClipboard int
  | Msleep int

datatype clipboardContent = PlainContent QString | HtmlContent QString

record world =
  keyboardHookEnabled :: bool
  keyDown :: "key \<Rightarrow> bool"
  clipboard :: clipboardContent
  clipboardBackup :: "clipboardContent option"
  pendingRestores :: "int list"
  trace :: "call list"

text \<open>
  What the code reads from its surroundings and does not change. \<open>raises n\<close> tells whether
  the external call made after \<open>n\<close> logged calls throws, and what; \<open>OpenProcess\<close> is the
  handle the OS gives for the process of the foreground window (\<open>None\<close> for a null handle);
  \<open>GetModuleFileNameEx\<close> gives the returned length and the buffer;
  \<open>htmlToPlainText\<close> is Qt's \<^verbatim>\<open>QTextDocumentFragment::fromHtml(s).toPlainText()\<close>.
\<close>

record environment =
  raises :: "nat \<Rightarrow> error option"
  isSensitiveApplication :: "QString \<Rightarrow> bool"
  OpenProcess :: "nat option"
  GetModuleFileNameEx :: "nat \<Rightarrow> nat \<times> 16 word list"
  delayBetweenKeystrokesMs :: int
  htmlToPlainText :: "QString \<Rightarrow> QString"

type_synonym 'a io = "world \<Rightarrow> (error + 'a) \<times> world"

definition ret :: "'a \<Rightarrow> 'a io" where
  "ret a w = (Inr a, w)"

text \<open>Sequencing: an exception of the first statement skips the rest.\<close>

definition andThen :: "'a io \<Rightarrow> ('a \<Rightarrow> 'b io) \<Rightarrow> 'b io" where
  "andThen m f w = (case m w of (Inl e, w') \<Rightarrow> (Inl e, w') | (Inr a, w') \<Rightarrow> f a w')"

subsection \<open>External primitives\<close>

text \<open>
  Modelled from the spec: the input-synthesis primitives of XMiLib, the clipboard
  primitives of ClipboardManager, and the OS's report of the keys held (sections 4.1, 4.3
  and 6): a synthesized key-up makes the OS report the key as not held, a synthesized
  key-down as held; \<^verbatim>\<open>backupClipboard\<close> keeps the content the clipboard has at that moment;
  \<^verbatim>\<open>setText\<close> and \<^verbatim>\<open>setHtml\<close> overwrite it; the single-shot timer returns at once and leaves
  the restoration pending.
\<close>

fun effect :: "call \<Rightarrow> world \<Rightarrow> world" where
  "effect (SynthesizeBackspaces n) w =
     w\<lparr>keyDown := (if 0 < n then (keyDown w)(VK_BACK := False) else keyDown w),
       trace := trace w @ [SynthesizeBackspaces n]\<rparr>"
| "effect (SynthesizeKeyDown k) w =
     w\<lparr>keyDown := (keyDown w)(k := True), trace := trace w @ [SynthesizeKeyDown k]\<rparr>"
| "effect (SynthesizeKeyUp k) w =
     w\<lparr>keyDown := (keyDown w)(k := False), trace := trace w @ [SynthesizeKeyUp k]\<rparr>"
| "effect (SynthesizeKeyDownAndUp k) w =
     w\<lparr>keyDown := (keyDown w)(k := False), trace := trace w @ [SynthesizeKeyDownAndUp k]\<rparr>"
| "effect (SynthesizeUnicodeKeyDownAndUp c) w =
     w\<lparr>trace := trace w @ [SynthesizeUnicodeKeyDownAndUp c]\<rparr>"
| "effect BackupClipboard w =
     w\<lparr>clipboardBackup := Some (clipboard w), trace := trace w @ [BackupClipboard]\<rparr>"
| "effect (SetHtml h) w =
     w\<lparr>clipboard := HtmlContent h, trace := trace w @ [SetHtml h]\<rparr>"
| "effect (SetText t) w =
     w\<lparr>clipboard := PlainContent t, trace := trace w @ [SetText t]\<rparr>"
| "effect RestoreClipboard w =
     w\<lparr>clipboard := (case clipboardBackup w of None \<Rightarrow> clipboard w | Some c \<Rightarrow> c),
       clipboardBackup := None, trace := trace w @ [RestoreClipboard]\<rparr>"
| "effect (SingleShotRestoreClipboard ms) w =
     w\<lparr>pendingRestores := pendingRestores w @ [ms],
       trace := trace w @ [SingleShotRestoreClipboard ms]\<rparr>"
| "effect (Msleep ms) w =
     w\<lparr>trace := trace w @ [Msleep ms]\<rparr>"

text \<open>One external call: it throws what the environment says, or has its effect.\<close>

definition external :: "environment \<Rightarrow> call \<Rightarrow> unit io" where
  "external env c w =
     (case raises env (length (trace w)) of
        Some e \<Rightarrow> (Inl e, w)
      | None \<Rightarrow> (Inr (), effect c w))"

definition synthesizeBackspaces :: "environment \<Rightarrow> int \<Rightarrow> unit io" where
  "synthesizeBackspaces env n = external env (SynthesizeBackspaces n)"

definition synthesizeKeyDown :: "environment \<Rightarrow> key \<Rightarrow> unit io" where
  "synthesizeKeyDown env k = external env (SynthesizeKeyDown k)"

definition synthesizeKeyUp :: "environment \<Rightarrow> key \<Rightarrow> unit io" where
  "synthesizeKeyUp env k = external env (SynthesizeKeyUp k)"

definition synthesizeKeyDownAndUp :: "environment \<Rightarrow> key \<Rightarrow> unit io" where
  "synthesizeKeyDownAndUp env k = external env (SynthesizeKeyDownAndUp k)"

definition synthesizeUnicodeKeyDownAndUp :: "environment \<Rightarrow> 16 word \<Rightarrow> unit io" where
  "synthesizeUnicodeKeyDownAndUp env c = external env (SynthesizeUnicodeKeyDownAndUp c)"

definition backupClipboard :: "environment \<Rightarrow> unit io" where
  "backupClipboard env = external env BackupClipboard"

definition setHtml :: "environment \<Rightarrow> QString \<Rightarrow> unit io" where
  "setHtml env h = external env (SetHtml h)"

definition setText :: "environment \<Rightarrow> QString \<Rightarrow> unit io" where
  "setText env t = external env (SetText t)"

definition singleShotRestoreClipboard :: "environment \<Rightarrow> int \<Rightarrow> unit io" where
  "singleShotRestoreClipboard env ms = external env (SingleShotRestoreClipboard ms)"

definition msleep :: "environment \<Rightarrow> int \<Rightarrow> unit io" where
  "msleep env ms = external env (Msleep ms)"

text \<open>\<^verbatim>\<open>GetKeyState\<close> returns a \<^verbatim>\<open>SHORT\<close> whose high-order bit is set when the key is down.\<close>

definition GetKeyState :: "world \<Rightarrow> key \<Rightarrow> int" where
  "GetKeyState w k = (if keyDown w k then - 128 else 0)"

text \<open>
  Modelled from the spec: \<^verbatim>\<open>InputManager::setKeyboardHookEnabled\<close> (section 6:
  \<^verbatim>\<open>setKeyboardHookEnabled(bool) -> previous value\<close>). It returns the previous state.
\<close>

definition setKeyboardHookEnabled :: "bool \<Rightarrow> world \<Rightarrow> bool \<times> world" where
  "setKeyboardHookEnabled enabled w = (keyboardHookEnabled w, w\<lparr>keyboardHookEnabled := enabled\<rparr>)"

subsection \<open>Qt string functions\<close>

text \<open>
  \<^verbatim>\<open>QString::toUcs4\<close>: a high surrogate followed by a low surrogate is one code point, any
  other surrogate becomes U+FFFD, every other code unit is its own code point.
\<close>

definition isHighSurrogate :: "16 word \<Rightarrow> bool" where
  "isHighSurrogate u = (0xD800 \<le> u \<and> u \<le> 0xDBFF)"

definition isLowSurrogate :: "16 word \<Rightarrow> bool" where
  "isLowSurrogate u = (0xDC00 \<le> u \<and> u \<le> 0xDFFF)"

definition isSurrogate :: "16 word \<Rightarrow> bool" where
  "isSurrogate u = (0xD800 \<le> u \<and> u \<le> 0xDFFF)"

definition surrogateToUcs4 :: "16 word \<Rightarrow> 16 word \<Rightarrow> 32 word" where
  "surrogateToUcs4 high low = push_bit 10 (ucast high) + ucast low - 0x35fdc00"

fun toUcs4 :: "QString \<Rightarrow> 32 word list" where
  "toUcs4 [] = []"
| "toUcs4 [u] = [if isSurrogate u then 0xFFFD else ucast u]"
| "toUcs4 (u # v # rest) =
     (if isSurrogate u then
        (if isHighSurrogate u \<and> isLowSurrogate v then surrogateToUcs4 u v # toUcs4 rest
         else 0xFFFD # toUcs4 (v # rest))
      else ucast u # toUcs4 (v # rest))"

text \<open>\<^verbatim>\<open>QString::fromWCharArray(buffer)\<close> reads up to the terminating null character.\<close>

definition fromWCharArray :: "16 word list \<Rightarrow> QString" where
  "fromWCharArray buffer = takeWhile (\<lambda>c. c \<noteq> 0) buffer"

text \<open>\<^verbatim>\<open>QDir::fromNativeSeparators\<close> on Windows: every backslash becomes a slash.\<close>

definition fromNativeSeparators :: "QString \<Rightarrow> QString" where
  "fromNativeSeparators p = map (\<lambda>c. if c = 0x5C then 0x2F else c) p"

text \<open>\<^verbatim>\<open>QFileInfo(p).fileName()\<close>: what follows the last slash.\<close>

definition fileName :: "QString \<Rightarrow> QString" where
  "fileName p = rev (takeWhile (\<lambda>c. c \<noteq> 0x2F) (rev p))"

subsection \<open>32-bit integers\<close>

text \<open>The value a \<^verbatim>\<open>qint32\<close> and a \<^verbatim>\<open>quint32\<close> hold after an arithmetic result is stored.\<close>

definition s32 :: "int \<Rightarrow> int" where
  "s32 x = (x + 2 ^ 31) mod 2 ^ 32 - 2 ^ 31"

definition u32 :: "int \<Rightarrow> int" where
  "u32 x = x mod 2 ^ 32"

subsection \<open>The functions of BeeftextUtils.cpp\<close>

text \<open>\<^verbatim>\<open>backupAndReleaseModifierKeys\<close>, lines 53-63: the loop over \<open>modifierKeys\<close>.\<close>

fun releaseLoop :: "environment \<Rightarrow> key list \<Rightarrow> key list \<Rightarrow> (key list) io" where
  "releaseLoop env [] result w = (Inr result, w)"
| "releaseLoop env (k # keys) result w =
     (if GetKeyState w k < 0 then
        (case synthesizeKeyUp env k w of
           (Inl e, w') \<Rightarrow> (Inl e, w')
         | (Inr _, w') \<Rightarrow> releaseLoop env keys (result @ [k]) w')
      else releaseLoop env keys result w)"

definition backupAndReleaseModifierKeys :: "environment \<Rightarrow> (key list) io" where
  "backupAndReleaseModifierKeys env = releaseLoop env modifierKeys []"

text \<open>\<^verbatim>\<open>restoreModifierKeys\<close>, lines 71-75.\<close>

fun restoreModifierKeys :: "environment \<Rightarrow> key list \<Rightarrow> unit io" where
  "restoreModifierKeys env [] w = (Inr (), w)"
| "restoreModifierKeys env (k # keys) w =
     (case synthesizeKeyDown env k w of
        (Inl e, w') \<Rightarrow> (Inl e, w')
      | (Inr _, w') \<Rightarrow> restoreModifierKeys env keys w')"

text \<open>\<^verbatim>\<open>waitBetweenKeystrokes\<close>, lines 81-86.\<close>

definition waitBetweenKeystrokes :: "environment \<Rightarrow> unit io" where
  "waitBetweenKeystrokes env =
     (let delayMs = delayBetweenKeystrokesMs env
      in if delayMs > 0 then msleep env delayMs else ret ())"

text \<open>\<^verbatim>\<open>getActiveExecutableFileName\<close>, lines 127-139.\<close>

definition getActiveExecutableFileName :: "environment \<Rightarrow> QString" where
  "getActiveExecutableFileName env =
     (case OpenProcess env of
        None \<Rightarrow> []
      | Some processHandle \<Rightarrow>
          (let (n, buffer) = GetModuleFileNameEx env processHandle;
               ok = (n \<noteq> 0)
           in if ok then fileName (fromNativeSeparators (fromWCharArray buffer)) else []))"

text \<open>\<^verbatim>\<open>snippetToPlainText\<close>, lines 147-155.\<close>

definition snippetToPlainText :: "environment \<Rightarrow> QString \<Rightarrow> bool \<Rightarrow> QString" where
  "snippetToPlainText env snippet isHtml =
     (if \<not> isHtml then snippet
      else removeAll kObjectReplacementChar (htmlToPlainText env snippet))"

text \<open>\<^verbatim>\<open>printableCharacterCount\<close>, lines 269-285: the loop, then the function.\<close>

fun countLoop :: "32 word list \<Rightarrow> int \<Rightarrow> int" where
  "countLoop [] result = result"
| "countLoop (c # cs) result =
     (let r1 = (if c = 0x200d then s32 (result - 2) else result);
          r2 = (if c \<ge> 0x1f3fb \<and> c \<le> 0x1f3ff then s32 (r1 - 1) else r1)
      in countLoop cs r2)"

definition printableCharacterCount :: "QString \<Rightarrow> int" where
  "printableCharacterCount str =
     (let ucs4 = toUcs4 str;
          result = s32 (int (length ucs4))
      in s32 (u32 (max 0 (countLoop ucs4 result))))"

text \<open>The typing loop of \<^verbatim>\<open>performTextSubstitution\<close>, lines 198-215.\<close>

fun typeLoop :: "environment \<Rightarrow> QString \<Rightarrow> unit io" where
  "typeLoop env [] = ret ()"
| "typeLoop env (c # cs) =
     andThen
       (if c = LineFeed then
          andThen (backupAndReleaseModifierKeys env) (\<lambda>pressedModifiers.
          andThen (synthesizeKeyDownAndUp env VK_RETURN) (\<lambda>_.
          andThen (restoreModifierKeys env pressedModifiers) (\<lambda>_.
          waitBetweenKeystrokes env)))
        else
          andThen (backupAndReleaseModifierKeys env) (\<lambda>pressedModifiers.
          andThen (synthesizeUnicodeKeyDownAndUp env c) (\<lambda>_.
          andThen (restoreModifierKeys env pressedModifiers) (\<lambda>_.
          waitBetweenKeystrokes env))))
       (\<lambda>_. typeLoop env cs)"

text \<open>The text whose printable characters the repositioning counts, line 223.\<close>

definition repositionText :: "environment \<Rightarrow> QString \<Rightarrow> bool \<Rightarrow> QString" where
  "repositionText env newText isHtml = (if isHtml then htmlToPlainText env newText else newText)"

text \<open>The loop of lines 222-225; its bound is evaluated at every iteration and its counter
  is a \<^verbatim>\<open>qint32\<close>, as in the source.\<close>

function leftLoop :: "environment \<Rightarrow> QString \<Rightarrow> bool \<Rightarrow> int \<Rightarrow> int \<Rightarrow> unit io" where
  "leftLoop env newText isHtml cursorPos i =
     (if i < max 0 (s32 (printableCharacterCount (repositionText env newText isHtml) - cursorPos))
      then andThen (synthesizeKeyDownAndUp env VK_LEFT)
             (\<lambda>_. leftLoop env newText isHtml cursorPos (s32 (i + 1)))
      else ret ())"
  by pat_completeness auto
termination
proof (relation "measure (\<lambda>(env, newText, isHtml, cursorPos, i).
    nat (max 0 (s32 (printableCharacterCount (repositionText env newText isHtml) - cursorPos)) - i))")
  show "wf (measure (\<lambda>(env, newText, isHtml, cursorPos, i).
    nat (max 0 (s32 (printableCharacterCount (repositionText env newText isHtml) - cursorPos)) - i)))"
    by simp
next
  fix env :: environment and newText :: QString and isHtml :: bool and cursorPos i :: int
  let ?bound = "max 0 (s32 (printableCharacterCount (repositionText env newText isHtml) - cursorPos))"
  assume less: "i < ?bound"
  have top: "?bound < 2 ^ 31"
    by (simp add: s32_def)
  have "i < s32 (i + 1)"
  proof (cases "- (2 ^ 31) \<le> i")
    case True
    then have "s32 (i + 1) = i + 1"
      using less top by (simp add: s32_def)
    then show ?thesis by simp
  next
    case False
    moreover have "- (2 ^ 31) \<le> s32 (i + 1)"
      by (simp add: s32_def)
    ultimately show ?thesis by simp
  qed
  then show "((env, newText, isHtml, cursorPos, s32 (i + 1)), (env, newText, isHtml, cursorPos, i))
      \<in> measure (\<lambda>(env, newText, isHtml, cursorPos, i).
        nat (max 0 (s32 (printableCharacterCount (repositionText env newText isHtml) - cursorPos)) - i))"
    using less by simp
qed

text \<open>The statements of the \<^verbatim>\<open>try\<close> block of \<^verbatim>\<open>performTextSubstitution\<close>, lines 172-229.\<close>

definition tryBlock :: "environment \<Rightarrow> int \<Rightarrow> QString \<Rightarrow> bool \<Rightarrow> int \<Rightarrow> unit io" where
  "tryBlock env charCount newText isHtml cursorPos =
     andThen (synthesizeBackspaces env (max charCount 0)) (\<lambda>_.
     andThen
       (if \<not> isSensitiveApplication env (getActiveExecutableFileName env) then
          andThen (backupClipboard env) (\<lambda>_.
          andThen (if isHtml then setHtml env newText else setText env newText) (\<lambda>_.
          andThen (backupAndReleaseModifierKeys env) (\<lambda>pressedModifiers.
          andThen (synthesizeKeyDown env VK_LCONTROL) (\<lambda>_.
          andThen (synthesizeKeyDownAndUp env key_V) (\<lambda>_.
          andThen (synthesizeKeyUp env VK_LCONTROL) (\<lambda>_.
          andThen (restoreModifierKeys env pressedModifiers) (\<lambda>_.
          singleShotRestoreClipboard env 1000)))))))
        else
          (let text = snippetToPlainText env newText isHtml
           in typeLoop env text))
       (\<lambda>_.
     if cursorPos \<ge> 0 then
       andThen (backupAndReleaseModifierKeys env) (\<lambda>pressedModifiers.
       andThen (leftLoop env newText isHtml cursorPos 0) (\<lambda>_.
       restoreModifierKeys env pressedModifiers))
     else ret ()))"

text \<open>\<^verbatim>\<open>performTextSubstitution\<close>, lines 165-237: the hook is disabled, the block runs, and
  the handler for \<^verbatim>\<open>Exception\<close> and the normal exit both set the hook to what it was.\<close>

definition performTextSubstitution ::
  "environment \<Rightarrow> int \<Rightarrow> QString \<Rightarrow> bool \<Rightarrow> int \<Rightarrow> unit io" where
  "performTextSubstitution env charCount newText isHtml cursorPos w =
     (let (wasKeyboardHookEnabled, w1) = setKeyboardHookEnabled False w
      in case tryBlock env charCount newText isHtml cursorPos w1 of
           (Inl Exception, w2) \<Rightarrow>
             (Inl Exception, snd (setKeyboardHookEnabled wasKeyboardHookEnabled w2))
         | (Inl ForeignException, w2) \<Rightarrow> (Inl ForeignException, w2)
         | (Inr _, w2) \<Rightarrow> (Inr (), snd (setKeyboardHookEnabled wasKeyboardHookEnabled w2)))"

subsection \<open>Describing a run\<close>

text \<open>
  The definitions below are not functions of the source: they describe runs, and the
  theorems compare them with what the functions above do. \<open>noFaults\<close> says that no
  external call throws. \<open>exec cs w\<close> is the world after the calls \<open>cs\<close>, each with its
  effect; \<open>keysAfter cs d\<close> is the state of the keys after them.
\<close>

definition noFaults :: "environment \<Rightarrow> bool" where
  "noFaults env = (\<forall>n. raises env n = None)"

definition exec :: "call list \<Rightarrow> world \<Rightarrow> world" where
  "exec cs w = foldl (\<lambda>w c. effect c w) w cs"

text \<open>The calls \<open>cs\<close> attempted in order, whatever the environment throws: the first
  call that throws ends the run with its exception, and the calls before it have had
  their effect.\<close>

fun attempt :: "environment \<Rightarrow> call list \<Rightarrow> unit io" where
  "attempt env [] w = (Inr (), w)"
| "attempt env (c # cs) w =
     (case raises env (length (trace w)) of
        Some e \<Rightarrow> (Inl e, w)
      | None \<Rightarrow> attempt env cs (effect c w))"

fun keyEffect :: "call \<Rightarrow> (key \<Rightarrow> bool) \<Rightarrow> key \<Rightarrow> bool" where
  "keyEffect (SynthesizeBackspaces n) d = (if 0 < n then d(VK_BACK := False) else d)"
| "keyEffect (SynthesizeKeyDown k) d = d(k := True)"
| "keyEffect (SynthesizeKeyUp k) d = d(k := False)"
| "keyEffect (SynthesizeKeyDownAndUp k) d = d(k := False)"
| "keyEffect c d = d"

definition keysAfter :: "call list \<Rightarrow> (key \<Rightarrow> bool) \<Rightarrow> key \<Rightarrow> bool" where
  "keysAfter cs d = foldl (\<lambda>d c. keyEffect c d) d cs"

text \<open>The modifier keys that \<^verbatim>\<open>GetKeyState\<close> reports as down, in the order of \<open>modifierKeys\<close>.\<close>

definition heldModifiers :: "world \<Rightarrow> key list" where
  "heldModifiers w = filter (\<lambda>k. GetKeyState w k < 0) modifierKeys"

text \<open>A burst of calls between the release of the held modifiers and their restoration.\<close>

definition bracketed :: "key list \<Rightarrow> call list \<Rightarrow> call list" where
  "bracketed held cs = map SynthesizeKeyUp held @ cs @ map SynthesizeKeyDown held"

text \<open>One typed character: Enter for a line feed, a Unicode key event otherwise; then the
  pause between keystrokes, when the configured delay is positive.\<close>

definition keystroke :: "QChar \<Rightarrow> call" where
  "keystroke c =
     (if c = LineFeed then SynthesizeKeyDownAndUp VK_RETURN else SynthesizeUnicodeKeyDownAndUp c)"

definition pause :: "environment \<Rightarrow> call list" where
  "pause env =
     (if delayBetweenKeystrokesMs env > 0 then [Msleep (delayBetweenKeystrokesMs env)] else [])"

definition typedCharacter :: "environment \<Rightarrow> key list \<Rightarrow> QChar \<Rightarrow> call list" where
  "typedCharacter env held c = bracketed held [keystroke c] @ pause env"

definition typeCalls :: "environment \<Rightarrow> key list \<Rightarrow> QString \<Rightarrow> call list" where
  "typeCalls env held str = concat (map (typedCharacter env held) str)"

definition chord :: "call list" where
  "chord =
     [SynthesizeKeyDown VK_LCONTROL, SynthesizeKeyDownAndUp key_V, SynthesizeKeyUp VK_LCONTROL]"

definition pasteCalls :: "key list \<Rightarrow> QString \<Rightarrow> bool \<Rightarrow> call list" where
  "pasteCalls held newText isHtml =
     [BackupClipboard, if isHtml then SetHtml newText else SetText newText]
     @ bracketed held chord @ [SingleShotRestoreClipboard 1000]"

text \<open>The bound of the loop of lines 222-225, as the 32-bit code computes it.\<close>

definition leftCount :: "environment \<Rightarrow> QString \<Rightarrow> bool \<Rightarrow> int \<Rightarrow> int" where
  "leftCount env newText isHtml cursorPos =
     max 0 (s32 (printableCharacterCount (repositionText env newText isHtml) - cursorPos))"

definition leftArrows :: "environment \<Rightarrow> QString \<Rightarrow> bool \<Rightarrow> int \<Rightarrow> call list" where
  "leftArrows env newText isHtml cursorPos =
     replicate (nat (leftCount env newText isHtml cursorPos)) (SynthesizeKeyDownAndUp VK_LEFT)"

definition repositionCalls ::
  "environment \<Rightarrow> key list \<Rightarrow> QString \<Rightarrow> bool \<Rightarrow> int \<Rightarrow> call list" where
  "repositionCalls env held newText isHtml cursorPos =
     (if cursorPos \<ge> 0 then bracketed held (leftArrows env newText isHtml cursorPos) else [])"

definition deliverCalls :: "environment \<Rightarrow> key list \<Rightarrow> QString \<Rightarrow> bool \<Rightarrow> call list" where
  "deliverCalls env held newText isHtml =
     (if \<not> isSensitiveApplication env (getActiveExecutableFileName env)
      then pasteCalls held newText isHtml
      else typeCalls env held (snippetToPlainText env newText isHtml))"

definition substitutionCalls ::
  "environment \<Rightarrow> key list \<Rightarrow> int \<Rightarrow> QString \<Rightarrow> bool \<Rightarrow> int \<Rightarrow> call list" where
  "substitutionCalls env held charCount newText isHtml cursorPos =
     [SynthesizeBackspaces (max charCount 0)] @ deliverCalls env held newText isHtml
     @ repositionCalls env held newText isHtml cursorPos"

text \<open>The calls that touch the clipboard: backup, set, restore, and the scheduled restore.\<close>

fun isClipboardCall :: "call \<Rightarrow> bool" where
  "isClipboardCall BackupClipboard = True"
| "isClipboardCall (SetHtml h) = True"
| "isClipboardCall (SetText t) = True"
| "isClipboardCall RestoreClipboard = True"
| "isClipboardCall (SingleShotRestoreClipboard ms) = True"
| "isClipboardCall c = False"

text \<open>
  Modelled from the spec: the number of backspace key events a call synthesizes.
  \<^verbatim>\<open>synthesizeBackspaces\<close> of XMiLib is not among the sources; section 6 lists it as
  "N synthesized backspaces". A key-down-and-up of \<open>VK_BACK\<close> is one backspace as well.
\<close>

fun backspaces :: "call \<Rightarrow> int" where
  "backspaces (SynthesizeBackspaces n) = n"
| "backspaces (SynthesizeKeyDownAndUp k) = (if k = VK_BACK then 1 else 0)"
| "backspaces c = 0"

text \<open>The quantities of the specification's formula for the printable character count.\<close>

definition zeroWidthJoiners :: "32 word list \<Rightarrow> nat" where
  "zeroWidthJoiners cs = length (filter (\<lambda>c. c = 0x200d) cs)"

definition fitzpatrickModifiers :: "32 word list \<Rightarrow> nat" where
  "fitzpatrickModifiers cs = length (filter (\<lambda>c. 0x1f3fb \<le> c \<and> c \<le> 0x1f3ff) cs)"

text \<open>The OS-level failures of \<^verbatim>\<open>getActiveExecutableFileName\<close>: no process handle, or
  a module-name query that returns 0.\<close>

definition resolutionFails :: "environment \<Rightarrow> bool" where
  "resolutionFails env =
     (case OpenProcess env of
        None \<Rightarrow> True
      | Some processHandle \<Rightarrow> fst (GetModuleFileNameEx env processHandle) = 0)"

subsection \<open>Sample inputs\<close>

definition ascii :: "string \<Rightarrow> QString" where
  "ascii s = map of_char s"

text \<open>The user holds nothing, or the left Shift key; the hook is enabled.\<close>

definition idleWorld :: world where
  "idleWorld =
     \<lparr>keyboardHookEnabled = True, keyDown = (\<lambda>k. False),
      clipboard = PlainContent (ascii ''old''), clipboardBackup = None,
      pendingRestores = [], trace = []\<rparr>"

definition shiftHeldWorld :: world where
  "shiftHeldWorld = idleWorld\<lparr>keyDown := (\<lambda>k. k = VK_LSHIFT)\<rparr>"

text \<open>A page with a bold word and a line break, and one with an image between two letters,
  with the plain text Qt renders them to.\<close>

definition boldHtml :: QString where
  "boldHtml = ascii ''<b>Hi</b><br>There''"

definition imageHtml :: QString where
  "imageHtml = ascii ''A<img src=x>B''"

definition sampleRenderer :: "QString \<Rightarrow> QString" where
  "sampleRenderer s =
     (if s = boldHtml then ascii ''Hi'' @ [LineFeed] @ ascii ''There''
      else if s = imageHtml then [0x41, 0xFFFC, 0x42]
      else s)"

text \<open>Notepad in the foreground; KeePass in the foreground, which the manager holds for
  sensitive; no foreground process to open, seen by a manager that holds every name,
  the empty one too, for sensitive.\<close>

definition notepadEnvironment :: environment where
  "notepadEnvironment =
     \<lparr>raises = (\<lambda>n. None),
      isSensitiveApplication = (\<lambda>name. name = ascii ''KeePass.exe''),
      OpenProcess = Some 1,
      GetModuleFileNameEx = (\<lambda>h. (22,
        ascii ''C:'' @ [0x5C] @ ascii ''Windows'' @ [0x5C] @ ascii ''notepad.exe'' @ [0, 0])),
      delayBetweenKeystrokesMs = 0,
      htmlToPlainText = sampleRenderer\<rparr>"

definition keepassEnvironment :: environment where
  "keepassEnvironment =
     notepadEnvironment\<lparr>GetModuleFileNameEx := (\<lambda>h. (20,
        ascii ''C:'' @ [0x5C] @ ascii ''Tools'' @ [0x5C] @ ascii ''KeePass.exe'' @ [0, 0])),
      delayBetweenKeystrokesMs := 5\<rparr>"

definition strictEnvironment :: environment where
  "strictEnvironment =
     notepadEnvironment\<lparr>isSensitiveApplication := (\<lambda>name. True), OpenProcess := None\<rparr>"

text \<open>The process opens, and the query for its module name fails.\<close>

definition moduleQueryFailsEnvironment :: environment where
  "moduleQueryFailsEnvironment =
     notepadEnvironment\<lparr>GetModuleFileNameEx := (\<lambda>h. (0, [0, 0, 0]))\<rparr>"

text \<open>The first external call throws: an \<^verbatim>\<open>xmilib::Exception\<close>, or another exception.\<close>

definition exceptionEnvironment :: environment where
  "exceptionEnvironment =
     notepadEnvironment\<lparr>raises := (\<lambda>n. if n = 0 then Some Exception else None)\<rparr>"

definition foreignExceptionEnvironment :: environment where
  "foreignExceptionEnvironment =
     notepadEnvironment\<lparr>raises := (\<lambda>n. if n = 0 then Some ForeignException else None)\<rparr>"

section \<open>Lemmas\<close>

subsection \<open>The printable character count\<close>

lemma s32_id: "- (2 ^ 31) \<le> x \<Longrightarrow> x < 2 ^ 31 \<Longrightarrow> s32 x = x"
  by (simp add: s32_def)

lemma u32_id: "0 \<le> x \<Longrightarrow> x < 2 ^ 32 \<Longrightarrow> u32 x = x"
  by (simp add: u32_def)


lemma countLoop_eq:
  "int (length cs) \<le> b \<Longrightarrow> b < 2 ^ 31 \<Longrightarrow> - b + 2 * int (length cs) \<le> r \<Longrightarrow> r \<le> b \<Longrightarrow>
   countLoop cs r = r - 2 * int (zeroWidthJoiners cs) - int (fitzpatrickModifiers cs)"
proof (induction cs arbitrary: r)
  case Nil
  then show ?case by (simp add: zeroWidthJoiners_def fitzpatrickModifiers_def)
next
  case (Cons c cs)
  show ?case
  proof (cases "c = 0x200d")
    case True
    have r2: "s32 (r - 2) = r - 2" using Cons.prems by (intro s32_id) auto
    have "countLoop (c # cs) r = countLoop cs (r - 2)" using True r2 by simp
    also have "\<dots> = (r - 2) - 2 * int (zeroWidthJoiners cs) - int (fitzpatrickModifiers cs)"
      using Cons.prems by (intro Cons.IH) auto
    finally show ?thesis using True by (simp add: zeroWidthJoiners_def fitzpatrickModifiers_def)
  next
    case nz: False
    show ?thesis
    proof (cases "0x1f3fb \<le> c \<and> c \<le> 0x1f3ff")
      case True
      have r1: "s32 (r - 1) = r - 1" using Cons.prems by (intro s32_id) auto
      have "countLoop (c # cs) r = countLoop cs (r - 1)" using True nz r1 by simp
      also have "\<dots> = (r - 1) - 2 * int (zeroWidthJoiners cs) - int (fitzpatrickModifiers cs)"
        using Cons.prems by (intro Cons.IH) auto
      finally show ?thesis using True nz by (simp add: zeroWidthJoiners_def fitzpatrickModifiers_def)
    next
      case False
      have "countLoop (c # cs) r = countLoop cs r" using False nz by auto
      also have "\<dots> = r - 2 * int (zeroWidthJoiners cs) - int (fitzpatrickModifiers cs)"
        using Cons.prems by (intro Cons.IH) auto
      finally show ?thesis using False nz by (auto simp add: zeroWidthJoiners_def fitzpatrickModifiers_def)
    qed
  qed
qed

lemma length_toUcs4: "length (toUcs4 s) \<le> length s"
  by (induction s rule: toUcs4.induct) auto

lemma printableCharacterCount_eq:
  assumes "length str < 2 ^ 31"
  shows "printableCharacterCount str =
    max 0 (int (length (toUcs4 str)) - 2 * int (zeroWidthJoiners (toUcs4 str))
           - int (fitzpatrickModifiers (toUcs4 str)))"
proof -
  let ?cs = "toUcs4 str"
  let ?n = "int (length ?cs)"
  have n: "?n < 2 ^ 31"
    using length_toUcs4 [of str] assms by simp
  have start: "s32 ?n = ?n"
    using n by (intro s32_id) auto
  have loop: "countLoop ?cs ?n = ?n - 2 * int (zeroWidthJoiners ?cs) - int (fitzpatrickModifiers ?cs)"
    using n by (intro countLoop_eq [where b = ?n]) auto
  let ?m = "max 0 (countLoop ?cs ?n)"
  have m: "0 \<le> ?m" "?m < 2 ^ 31"
    using n loop by auto
  have "s32 (u32 ?m) = ?m"
    using m by (simp add: u32_id s32_id)
  then show ?thesis
    using start loop by (simp add: printableCharacterCount_def Let_def)
qed

lemma printableCharacterCount_bounds:
  assumes "length str < 2 ^ 31"
  shows "0 \<le> printableCharacterCount str" and "printableCharacterCount str < 2 ^ 31"
proof -
  have "int (length (toUcs4 str)) < 2 ^ 31"
    using length_toUcs4 [of str] assms by simp
  then show "0 \<le> printableCharacterCount str" and "printableCharacterCount str < 2 ^ 31"
    unfolding printableCharacterCount_eq [OF assms] by auto
qed

lemma joined_pair_count:
  assumes len: "length str < 2 ^ 31"
    and cs: "toUcs4 str = [a, 0x200D, b]"
    and a: "a \<noteq> 0x200D" "\<not> (0x1f3fb \<le> a \<and> a \<le> 0x1f3ff)"
    and b: "b \<noteq> 0x200D" "\<not> (0x1f3fb \<le> b \<and> b \<le> 0x1f3ff)"
  shows "printableCharacterCount str = 1"
  unfolding printableCharacterCount_eq [OF len] cs
  using a b by (simp add: zeroWidthJoiners_def fitzpatrickModifiers_def)

lemma modified_emoji_count:
  assumes len: "length str < 2 ^ 31"
    and cs: "toUcs4 str = [a, m]"
    and a: "a \<noteq> 0x200D" "\<not> (0x1f3fb \<le> a \<and> a \<le> 0x1f3ff)"
    and m: "0x1f3fb \<le> m" "m \<le> 0x1f3ff"
  shows "printableCharacterCount str = 1"
proof -
  have "m \<noteq> 0x200D"
    using m by auto
  then show ?thesis
    unfolding printableCharacterCount_eq [OF len] cs
    using a m by (simp add: zeroWidthJoiners_def fitzpatrickModifiers_def)
qed

subsection \<open>The effect of a list of calls\<close>

lemma exec_Nil: "exec [] w = w"
  by (simp add: exec_def)

lemma exec_Cons: "exec (c # cs) w = exec cs (effect c w)"
  by (simp add: exec_def)

lemma exec_append: "exec (cs @ ds) w = exec ds (exec cs w)"
  by (simp add: exec_def)

lemma exec_exec: "exec ds (exec cs w) = exec (cs @ ds) w"
  by (simp add: exec_append)

lemma trace_effect: "trace (effect c w) = trace w @ [c]"
  by (cases c) simp_all

lemma hook_effect: "keyboardHookEnabled (effect c w) = keyboardHookEnabled w"
  by (cases c) simp_all

lemma keyDown_effect: "keyDown (effect c w) = keyEffect c (keyDown w)"
  by (cases c) simp_all

lemma trace_exec: "trace (exec cs w) = trace w @ cs"
  by (induction cs arbitrary: w) (simp_all add: trace_effect exec_Nil exec_Cons)

lemma keyDown_exec: "keyDown (exec cs w) = keysAfter cs (keyDown w)"
  by (induction cs arbitrary: w) (simp_all add: keyDown_effect keysAfter_def exec_Nil exec_Cons)

lemma keysAfter_Nil [simp]: "keysAfter [] d = d"
  by (simp add: keysAfter_def)

lemma keysAfter_Cons [simp]: "keysAfter (c # cs) d = keysAfter cs (keyEffect c d)"
  by (simp add: keysAfter_def)

lemma keysAfter_append: "keysAfter (cs @ ds) d = keysAfter ds (keysAfter cs d)"
  by (simp add: keysAfter_def)

lemma keysAfter_ups: "keysAfter (map SynthesizeKeyUp ks) d k = (d k \<and> k \<notin> set ks)"
  by (induction ks arbitrary: d) auto

lemma keysAfter_downs: "keysAfter (map SynthesizeKeyDown ks) d k = (d k \<or> k \<in> set ks)"
  by (induction ks arbitrary: d) auto

lemma distinct_modifierKeys: "distinct modifierKeys"
  by (simp add: modifierKeys_def VK_LCONTROL_def VK_RCONTROL_def VK_LMENU_def VK_RMENU_def
      VK_LSHIFT_def VK_RSHIFT_def VK_LWIN_def VK_RWIN_def)

lemma GetKeyState_neg: "(GetKeyState w k < 0) = keyDown w k"
  by (simp add: GetKeyState_def)

lemma heldModifiers_eq: "heldModifiers w = filter (keyDown w) modifierKeys"
  by (simp add: heldModifiers_def GetKeyState_neg)

lemma heldModifiers_cong:
  "(\<And>k. k \<in> set modifierKeys \<Longrightarrow> keyDown w' k = keyDown w k) \<Longrightarrow> heldModifiers w' = heldModifiers w"
  unfolding heldModifiers_eq by (rule filter_cong) auto

lemma held_bracketed:
  assumes quiet: "\<And>d k. keysAfter cs d k \<Longrightarrow> d k"
  shows "heldModifiers (exec (bracketed (heldModifiers w) cs) w) = heldModifiers w"
proof (rule heldModifiers_cong)
  fix k assume k: "k \<in> set modifierKeys"
  let ?h = "heldModifiers w"
  have in_held: "k \<in> set ?h \<longleftrightarrow> keyDown w k" using k by (simp add: heldModifiers_eq)
  have "keyDown (exec (bracketed ?h cs) w) k
      = (keysAfter cs (keysAfter (map SynthesizeKeyUp ?h) (keyDown w)) k \<or> k \<in> set ?h)"
    by (simp add: bracketed_def keyDown_exec keysAfter_append keysAfter_downs)
  moreover have "\<not> keysAfter cs (keysAfter (map SynthesizeKeyUp ?h) (keyDown w)) k" if "\<not> keyDown w k"
    using quiet [of "keysAfter (map SynthesizeKeyUp ?h) (keyDown w)" k] that
    by (auto simp: keysAfter_ups)
  ultimately show "keyDown (exec (bracketed ?h cs) w) k = keyDown w k"
    using in_held by auto
qed

lemma held_unchanged:
  "(\<And>k. k \<in> set modifierKeys \<Longrightarrow> keysAfter cs (keyDown w) k = keyDown w k) \<Longrightarrow>
   heldModifiers (exec cs w) = heldModifiers w"
  by (rule heldModifiers_cong) (simp add: keyDown_exec)

lemma quiet_keystroke: "keysAfter [keystroke c] d k \<Longrightarrow> d k"
  by (auto simp: keystroke_def split: if_splits)

lemma quiet_chord: "keysAfter chord d k \<Longrightarrow> d k"
  by (auto simp: chord_def split: if_splits)

lemma keysAfter_pause: "keysAfter (pause env) d = d"
  by (simp add: pause_def)

lemma held_typedCharacter:
  "heldModifiers (exec (typedCharacter env (heldModifiers w) c) w) = heldModifiers w"
proof -
  let ?w1 = "exec (bracketed (heldModifiers w) [keystroke c]) w"
  have "heldModifiers (exec (pause env) ?w1) = heldModifiers ?w1"
    by (rule held_unchanged) (simp add: keysAfter_pause)
  also have "\<dots> = heldModifiers w"
    by (rule held_bracketed) (rule quiet_keystroke)
  finally show ?thesis by (simp add: typedCharacter_def exec_append)
qed

lemma VK_BACK_not_modifier: "VK_BACK \<notin> set modifierKeys"
  by (simp add: modifierKeys_def VK_BACK_def VK_LCONTROL_def VK_RCONTROL_def VK_LMENU_def
      VK_RMENU_def VK_LSHIFT_def VK_RSHIFT_def VK_LWIN_def VK_RWIN_def)

lemma held_backspaces: "heldModifiers (exec [SynthesizeBackspaces n] w) = heldModifiers w"
  using VK_BACK_not_modifier by (intro held_unchanged) auto

lemma held_typeCalls:
  "heldModifiers (exec (typeCalls env (heldModifiers w) str) w) = heldModifiers w"
proof (induction str arbitrary: w)
  case Nil
  then show ?case by (simp add: typeCalls_def exec_Nil)
next
  case (Cons c cs)
  let ?w1 = "exec (typedCharacter env (heldModifiers w) c) w"
  have "exec (typeCalls env (heldModifiers w) (c # cs)) w = exec (typeCalls env (heldModifiers ?w1) cs) ?w1"
    by (simp add: typeCalls_def exec_append held_typedCharacter)
  then show ?case
    using Cons.IH [of ?w1] by (simp add: held_typedCharacter)
qed

lemma held_pasteCalls:
  "heldModifiers (exec (pasteCalls (heldModifiers w) newText isHtml) w) = heldModifiers w"
proof -
  let ?set = "[BackupClipboard, if isHtml then SetHtml newText else SetText newText]"
  let ?w1 = "exec ?set w"
  let ?w2 = "exec (bracketed (heldModifiers ?w1) chord) ?w1"
  have h1: "heldModifiers ?w1 = heldModifiers w"
    by (rule held_unchanged) simp
  have h2: "heldModifiers ?w2 = heldModifiers ?w1"
    by (rule held_bracketed) (rule quiet_chord)
  have h3: "heldModifiers (exec [SingleShotRestoreClipboard 1000] ?w2) = heldModifiers ?w2"
    by (rule held_unchanged) simp
  have "exec (pasteCalls (heldModifiers w) newText isHtml) w = exec [SingleShotRestoreClipboard 1000] ?w2"
    unfolding h1 by (simp only: pasteCalls_def exec_append)
  then show ?thesis using h1 h2 h3 by simp
qed

lemma held_deliverCalls:
  "heldModifiers (exec (deliverCalls env (heldModifiers w) newText isHtml) w) = heldModifiers w"
  by (simp add: deliverCalls_def held_pasteCalls held_typeCalls)

lemma held_hook_update: "heldModifiers (w\<lparr>keyboardHookEnabled := b\<rparr>) = heldModifiers w"
  by (simp add: heldModifiers_def GetKeyState_def)

lemma leftCount_top: "leftCount env newText isHtml cursorPos < 2 ^ 31"
  by (simp add: leftCount_def s32_def)

subsection \<open>The functions attempt their calls in order\<close>

lemma external_attempt: "external env c w = attempt env [c] w"
  by (simp add: external_def split: option.splits)

lemma attempt_append:
  "attempt env (cs @ ds) w = andThen (attempt env cs) (\<lambda>_. attempt env ds) w"
  by (induction cs arbitrary: w) (simp_all add: andThen_def split: option.splits)

lemma attempt_Inr: "attempt env cs w = (Inr u, w') \<Longrightarrow> w' = exec cs w"
  by (induction cs arbitrary: w) (auto simp: exec_Nil exec_Cons split: option.splits)

lemma attempt_noFaults: "noFaults env \<Longrightarrow> attempt env cs w = (Inr (), exec cs w)"
  by (induction cs arbitrary: w) (simp_all add: noFaults_def exec_Nil exec_Cons)

lemma attempt_prefix:
  "\<exists>p q. cs = p @ q \<and> snd (attempt env cs w) = exec p w
     \<and> (fst (attempt env cs w) = Inr () \<longrightarrow> q = [])"
proof (induction cs arbitrary: w)
  case Nil
  then show ?case by (simp add: exec_Nil)
next
  case (Cons c cs)
  show ?case
  proof (cases "raises env (length (trace w))")
    case None
    from Cons.IH [of "effect c w"] obtain p q where
      "cs = p @ q" "snd (attempt env cs (effect c w)) = exec p (effect c w)"
      "fst (attempt env cs (effect c w)) = Inr () \<longrightarrow> q = []"
      by blast
    then have "c # cs = (c # p) @ q \<and> snd (attempt env (c # cs) w) = exec (c # p) w
      \<and> (fst (attempt env (c # cs) w) = Inr () \<longrightarrow> q = [])"
      using None by (simp add: exec_Cons)
    then show ?thesis by blast
  next
    case (Some e)
    then have "c # cs = [] @ (c # cs) \<and> snd (attempt env (c # cs) w) = exec [] w
      \<and> (fst (attempt env (c # cs) w) = Inr () \<longrightarrow> c # cs = [])"
      by (simp add: exec_Nil)
    then show ?thesis by blast
  qed
qed

lemma andThen_attempt:
  assumes first: "m w = attempt env cs w"
    and rest: "\<And>u. f u (exec cs w) = attempt env ds (exec cs w)"
  shows "andThen m f w = attempt env (cs @ ds) w"
proof (cases "attempt env cs w")
  case (Pair r w')
  show ?thesis
  proof (cases r)
    case (Inl e)
    then show ?thesis
      using Pair first by (simp add: attempt_append andThen_def)
  next
    case (Inr u)
    then have "w' = exec cs w"
      using Pair attempt_Inr by blast
    then show ?thesis
      using Pair Inr first rest [of u] by (simp add: attempt_append andThen_def)
  qed
qed

lemma andThen_returning:
  assumes first: "m w = andThen (attempt env cs) (\<lambda>_. ret a) w"
    and rest: "f a (exec cs w) = attempt env ds (exec cs w)"
  shows "andThen m f w = attempt env (cs @ ds) w"
proof (cases "attempt env cs w")
  case (Pair r w')
  show ?thesis
  proof (cases r)
    case (Inl e)
    then show ?thesis
      using Pair first by (simp add: attempt_append andThen_def)
  next
    case (Inr u)
    then have "w' = exec cs w"
      using Pair attempt_Inr by blast
    then show ?thesis
      using Pair Inr first rest by (simp add: attempt_append andThen_def ret_def)
  qed
qed

lemma releaseLoop_attempt:
  "distinct keys \<Longrightarrow>
   releaseLoop env keys result w =
     andThen (attempt env (map SynthesizeKeyUp (filter (keyDown w) keys)))
       (\<lambda>_. ret (result @ filter (keyDown w) keys)) w"
proof (induction keys arbitrary: result w)
  case Nil
  then show ?case by (simp add: andThen_def ret_def)
next
  case (Cons k keys)
  show ?case
  proof (cases "keyDown w k")
    case True
    define w1 where "w1 = effect (SynthesizeKeyUp k) w"
    have same: "filter (keyDown w1) keys = filter (keyDown w) keys"
      using Cons.prems by (intro filter_cong) (auto simp: w1_def)
    show ?thesis
    proof (cases "raises env (length (trace w))")
      case None
      then have "releaseLoop env (k # keys) result w = releaseLoop env keys (result @ [k]) w1"
        using True by (simp add: GetKeyState_neg synthesizeKeyUp_def external_def w1_def)
      also have "\<dots> = andThen (attempt env (map SynthesizeKeyUp (filter (keyDown w1) keys)))
          (\<lambda>_. ret ((result @ [k]) @ filter (keyDown w1) keys)) w1"
        using Cons.prems by (intro Cons.IH) simp
      also have "\<dots> = andThen (attempt env (map SynthesizeKeyUp (filter (keyDown w) (k # keys))))
          (\<lambda>_. ret (result @ filter (keyDown w) (k # keys))) w"
        using True None unfolding same by (simp add: andThen_def w1_def)
      finally show ?thesis .
    next
      case (Some e)
      then show ?thesis
        using True by (simp add: GetKeyState_neg synthesizeKeyUp_def external_def andThen_def)
    qed
  next
    case False
    then show ?thesis
      using Cons.prems Cons.IH [of result w] by (simp add: GetKeyState_neg)
  qed
qed

lemma backup_attempt:
  "backupAndReleaseModifierKeys env w =
     andThen (attempt env (map SynthesizeKeyUp (heldModifiers w))) (\<lambda>_. ret (heldModifiers w)) w"
  by (simp add: backupAndReleaseModifierKeys_def releaseLoop_attempt distinct_modifierKeys
      heldModifiers_eq)

lemma restore_attempt:
  "restoreModifierKeys env keys w = attempt env (map SynthesizeKeyDown keys) w"
  by (induction keys arbitrary: w)
    (simp_all add: synthesizeKeyDown_def external_def split: option.splits)

lemma bracket_attempt:
  assumes mid: "\<And>w'. m w' = attempt env cs w'"
  shows "andThen (backupAndReleaseModifierKeys env) (\<lambda>pressedModifiers.
           andThen m (\<lambda>_. restoreModifierKeys env pressedModifiers)) w
         = attempt env (bracketed (heldModifiers w) cs) w"
proof -
  let ?h = "heldModifiers w"
  have inner: "andThen m (\<lambda>_. restoreModifierKeys env ?h) w'
      = attempt env (cs @ map SynthesizeKeyDown ?h) w'" for w'
    by (rule andThen_attempt [OF mid]) (rule restore_attempt)
  show ?thesis
    unfolding bracketed_def
    by (rule andThen_returning [OF backup_attempt]) (rule inner)
qed

lemma bracket_then_attempt:
  assumes mid: "\<And>w'. m w' = attempt env cs w'"
    and after: "\<And>w'. k w' = attempt env ds w'"
  shows "andThen (backupAndReleaseModifierKeys env) (\<lambda>pressedModifiers.
           andThen m (\<lambda>_. andThen (restoreModifierKeys env pressedModifiers) (\<lambda>_. k))) w
         = attempt env (bracketed (heldModifiers w) cs @ ds) w"
proof -
  let ?h = "heldModifiers w"
  have last: "andThen (restoreModifierKeys env ?h) (\<lambda>_. k) w'
      = attempt env (map SynthesizeKeyDown ?h @ ds) w'" for w'
    by (rule andThen_attempt [OF restore_attempt]) (rule after)
  have inner: "andThen m (\<lambda>_. andThen (restoreModifierKeys env ?h) (\<lambda>_. k)) w'
      = attempt env (cs @ map SynthesizeKeyDown ?h @ ds) w'" for w'
    by (rule andThen_attempt [OF mid]) (rule last)
  have "andThen (backupAndReleaseModifierKeys env) (\<lambda>pressedModifiers.
           andThen m (\<lambda>_. andThen (restoreModifierKeys env pressedModifiers) (\<lambda>_. k))) w
      = attempt env (map SynthesizeKeyUp ?h @ cs @ map SynthesizeKeyDown ?h @ ds) w"
    by (rule andThen_returning [OF backup_attempt]) (rule inner)
  then show ?thesis by (simp add: bracketed_def)
qed

lemma waitBetweenKeystrokes_attempt:
  "waitBetweenKeystrokes env w = attempt env (pause env) w"
  by (simp add: waitBetweenKeystrokes_def pause_def msleep_def external_attempt ret_def Let_def)

lemma typedCharacter_attempt:
  "(if c = LineFeed then
          andThen (backupAndReleaseModifierKeys env) (\<lambda>pressedModifiers.
          andThen (synthesizeKeyDownAndUp env VK_RETURN) (\<lambda>_.
          andThen (restoreModifierKeys env pressedModifiers) (\<lambda>_.
          waitBetweenKeystrokes env)))
        else
          andThen (backupAndReleaseModifierKeys env) (\<lambda>pressedModifiers.
          andThen (synthesizeUnicodeKeyDownAndUp env c) (\<lambda>_.
          andThen (restoreModifierKeys env pressedModifiers) (\<lambda>_.
          waitBetweenKeystrokes env)))) w
        = attempt env (typedCharacter env (heldModifiers w) c) w"
proof (cases "c = LineFeed")
  case True
  have "\<And>w'. synthesizeKeyDownAndUp env VK_RETURN w' = attempt env [keystroke c] w'"
    using True by (simp add: keystroke_def synthesizeKeyDownAndUp_def external_attempt)
  then show ?thesis
    using True bracket_then_attempt [OF _ waitBetweenKeystrokes_attempt]
    by (simp add: typedCharacter_def)
next
  case False
  have "\<And>w'. synthesizeUnicodeKeyDownAndUp env c w' = attempt env [keystroke c] w'"
    using False by (simp add: keystroke_def synthesizeUnicodeKeyDownAndUp_def external_attempt)
  then show ?thesis
    using False bracket_then_attempt [OF _ waitBetweenKeystrokes_attempt]
    by (simp add: typedCharacter_def)
qed

lemma typeLoop_attempt:
  "typeLoop env str w = attempt env (typeCalls env (heldModifiers w) str) w"
proof (induction str arbitrary: w)
  case Nil
  then show ?case by (simp add: ret_def typeCalls_def)
next
  case (Cons c cs)
  let ?first = "typedCharacter env (heldModifiers w) c"
  have rest: "typeLoop env cs (exec ?first w)
      = attempt env (typeCalls env (heldModifiers w) cs) (exec ?first w)"
    using Cons.IH [of "exec ?first w"] by (simp add: held_typedCharacter)
  have "typeLoop env (c # cs) w = attempt env (?first @ typeCalls env (heldModifiers w) cs) w"
    unfolding typeLoop.simps
    by (rule andThen_attempt [OF typedCharacter_attempt]) (rule rest)
  then show ?case by (simp add: typeCalls_def)
qed

lemma leftLoop_attempt:
  "- (2 ^ 31) \<le> i \<Longrightarrow>
   leftLoop env newText isHtml cursorPos i w =
     attempt env (replicate (nat (leftCount env newText isHtml cursorPos - i))
                    (SynthesizeKeyDownAndUp VK_LEFT)) w"
proof (induction env newText isHtml cursorPos i arbitrary: w rule: leftLoop.induct)
  case (1 env newText isHtml cursorPos i)
  let ?n = "leftCount env newText isHtml cursorPos"
  let ?left = "SynthesizeKeyDownAndUp VK_LEFT"
  show ?case
  proof (cases "i < ?n")
    case True
    have next_i: "s32 (i + 1) = i + 1"
      using True "1.prems" leftCount_top [of env newText isHtml cursorPos]
      by (intro s32_id) auto
    have "leftLoop env newText isHtml cursorPos (s32 (i + 1)) w'
        = attempt env (replicate (nat (?n - s32 (i + 1))) ?left) w'" for w'
      using True "1.prems" next_i by (intro "1.IH") (simp_all add: leftCount_def)
    then have rest: "leftLoop env newText isHtml cursorPos (s32 (i + 1)) w'
        = attempt env (replicate (nat (?n - (i + 1))) ?left) w'" for w'
      unfolding next_i .
    have "leftLoop env newText isHtml cursorPos i w
        = andThen (synthesizeKeyDownAndUp env VK_LEFT)
            (\<lambda>_. leftLoop env newText isHtml cursorPos (s32 (i + 1))) w"
      using True by (subst leftLoop.simps) (simp add: leftCount_def)
    also have "\<dots> = attempt env ([?left] @ replicate (nat (?n - (i + 1))) ?left) w"
    proof (rule andThen_attempt)
      show "synthesizeKeyDownAndUp env VK_LEFT w = attempt env [?left] w"
        by (simp only: synthesizeKeyDownAndUp_def external_attempt)
      show "leftLoop env newText isHtml cursorPos (s32 (i + 1)) (exec [?left] w)
          = attempt env (replicate (nat (?n - (i + 1))) ?left) (exec [?left] w)" for u :: unit
        by (rule rest)
    qed
    also have "[?left] @ replicate (nat (?n - (i + 1))) ?left = replicate (Suc (nat (?n - (i + 1)))) ?left"
      by simp
    also have "Suc (nat (?n - (i + 1))) = nat (?n - i)"
      using True by simp
    finally show ?thesis .
  next
    case False
    then have "nat (?n - i) = 0" by simp
    then show ?thesis
      using False by (subst leftLoop.simps) (simp add: leftCount_def [symmetric] ret_def)
  qed
qed

lemma external_step:
  "f () (exec [c] w) = attempt env cs (exec [c] w) \<Longrightarrow>
   andThen (external env c) f w = attempt env (c # cs) w"
  by (simp add: andThen_def external_def exec_Cons exec_Nil split: option.splits)

lemma backup_step:
  assumes "heldModifiers w = h"
    and "f h (exec (map SynthesizeKeyUp h) w) = attempt env cs (exec (map SynthesizeKeyUp h) w)"
  shows "andThen (backupAndReleaseModifierKeys env) f w
    = attempt env (map SynthesizeKeyUp h @ cs) w"
proof (rule andThen_returning)
  show "backupAndReleaseModifierKeys env w
      = andThen (attempt env (map SynthesizeKeyUp h)) (\<lambda>_. ret h) w"
    using assms(1) backup_attempt [of env w] by simp
  show "f h (exec (map SynthesizeKeyUp h) w) = attempt env cs (exec (map SynthesizeKeyUp h) w)"
    by (rule assms(2))
qed

lemma restore_step:
  assumes "f () (exec (map SynthesizeKeyDown keys) w)
     = attempt env cs (exec (map SynthesizeKeyDown keys) w)"
  shows "andThen (restoreModifierKeys env keys) f w
    = attempt env (map SynthesizeKeyDown keys @ cs) w"
proof (rule andThen_attempt)
  show "restoreModifierKeys env keys w = attempt env (map SynthesizeKeyDown keys) w"
    by (rule restore_attempt)
  show "f u (exec (map SynthesizeKeyDown keys) w)
      = attempt env cs (exec (map SynthesizeKeyDown keys) w)" for u :: unit
    using assms by simp
qed

lemma set_external:
  "(if isHtml then setHtml env newText else setText env newText)
     = external env (if isHtml then SetHtml newText else SetText newText)"
  by (simp add: setHtml_def setText_def)

lemma paste_attempt:
  "andThen (backupClipboard env) (\<lambda>_.
          andThen (if isHtml then setHtml env newText else setText env newText) (\<lambda>_.
          andThen (backupAndReleaseModifierKeys env) (\<lambda>pressedModifiers.
          andThen (synthesizeKeyDown env VK_LCONTROL) (\<lambda>_.
          andThen (synthesizeKeyDownAndUp env key_V) (\<lambda>_.
          andThen (synthesizeKeyUp env VK_LCONTROL) (\<lambda>_.
          andThen (restoreModifierKeys env pressedModifiers) (\<lambda>_.
          singleShotRestoreClipboard env 1000))))))) w
        = attempt env (pasteCalls (heldModifiers w) newText isHtml) w"
proof -
  let ?set = "if isHtml then SetHtml newText else SetText newText"
  have "heldModifiers (exec [BackupClipboard, ?set] w) = heldModifiers w"
    by (rule held_unchanged) simp
  then have held: "heldModifiers (exec [?set] (exec [BackupClipboard] w)) = heldModifiers w"
    by (simp add: exec_exec)
  have calls: "pasteCalls (heldModifiers w) newText isHtml
      = BackupClipboard # ?set # map SynthesizeKeyUp (heldModifiers w)
          @ SynthesizeKeyDown VK_LCONTROL # SynthesizeKeyDownAndUp key_V
          # SynthesizeKeyUp VK_LCONTROL # map SynthesizeKeyDown (heldModifiers w)
          @ [SingleShotRestoreClipboard 1000]"
    by (simp add: pasteCalls_def bracketed_def chord_def)
  show ?thesis
    unfolding calls backupClipboard_def set_external synthesizeKeyDown_def
      synthesizeKeyDownAndUp_def synthesizeKeyUp_def singleShotRestoreClipboard_def
    apply (rule external_step)
    apply (rule external_step)
    apply (rule backup_step [OF held])
    apply (rule external_step)
    apply (rule external_step)
    apply (rule external_step)
    apply (rule restore_step)
    apply (rule external_attempt)
    done
qed

lemma reposition_attempt:
  "(if cursorPos \<ge> 0 then
       andThen (backupAndReleaseModifierKeys env) (\<lambda>pressedModifiers.
       andThen (leftLoop env newText isHtml cursorPos 0) (\<lambda>_.
       restoreModifierKeys env pressedModifiers))
     else ret ()) w = attempt env (repositionCalls env (heldModifiers w) newText isHtml cursorPos) w"
  using bracket_attempt [of "leftLoop env newText isHtml cursorPos 0" env
      "leftArrows env newText isHtml cursorPos" w] leftLoop_attempt [of 0 env newText isHtml cursorPos]
  by (simp add: repositionCalls_def ret_def leftArrows_def)

lemma tryBlock_attempt:
  "tryBlock env charCount newText isHtml cursorPos w =
     attempt env (substitutionCalls env (heldModifiers w) charCount newText isHtml cursorPos) w"
proof -
  let ?h = "heldModifiers w"
  let ?erase = "SynthesizeBackspaces (max charCount 0)"
  let ?w1 = "exec [?erase] w"
  let ?deliver = "deliverCalls env ?h newText isHtml"
  let ?reposition = "repositionCalls env ?h newText isHtml cursorPos"
  have h1: "heldModifiers ?w1 = ?h"
    by (rule held_backspaces)
  have h2: "heldModifiers (exec ?deliver ?w1) = ?h"
    using held_deliverCalls [of env ?w1 newText isHtml] h1 by simp
  have deliver: "(if \<not> isSensitiveApplication env (getActiveExecutableFileName env) then
          andThen (backupClipboard env) (\<lambda>_.
          andThen (if isHtml then setHtml env newText else setText env newText) (\<lambda>_.
          andThen (backupAndReleaseModifierKeys env) (\<lambda>pressedModifiers.
          andThen (synthesizeKeyDown env VK_LCONTROL) (\<lambda>_.
          andThen (synthesizeKeyDownAndUp env key_V) (\<lambda>_.
          andThen (synthesizeKeyUp env VK_LCONTROL) (\<lambda>_.
          andThen (restoreModifierKeys env pressedModifiers) (\<lambda>_.
          singleShotRestoreClipboard env 1000)))))))
        else
          (let text = snippetToPlainText env newText isHtml
           in typeLoop env text)) ?w1 = attempt env ?deliver ?w1"
    using paste_attempt [of env isHtml newText ?w1]
      typeLoop_attempt [of env "snippetToPlainText env newText isHtml" ?w1]
    by (simp add: deliverCalls_def h1)
  have reposition: "(if cursorPos \<ge> 0 then
       andThen (backupAndReleaseModifierKeys env) (\<lambda>pressedModifiers.
       andThen (leftLoop env newText isHtml cursorPos 0) (\<lambda>_.
       restoreModifierKeys env pressedModifiers))
     else ret ()) (exec ?deliver ?w1) = attempt env ?reposition (exec ?deliver ?w1)"
    using reposition_attempt [of cursorPos env newText isHtml "exec ?deliver ?w1"] h2 by simp
  have "tryBlock env charCount newText isHtml cursorPos w
      = attempt env (?erase # ?deliver @ ?reposition) w"
    unfolding tryBlock_def synthesizeBackspaces_def
    by (rule external_step, rule andThen_attempt, rule deliver, rule reposition)
  then show ?thesis
    by (simp add: substitutionCalls_def)
qed

lemma attempt_hook_update:
  "attempt env cs (w\<lparr>keyboardHookEnabled := b\<rparr>)
     = (fst (attempt env cs w), (snd (attempt env cs w))\<lparr>keyboardHookEnabled := b\<rparr>)"
proof (induction cs arbitrary: w)
  case Nil
  then show ?case by simp
next
  case (Cons c cs)
  have "effect c (w\<lparr>keyboardHookEnabled := b\<rparr>) = (effect c w)\<lparr>keyboardHookEnabled := b\<rparr>"
    by (cases c) (simp_all split: option.splits)
  then show ?case using Cons.IH by (simp split: option.splits)
qed

lemma hook_attempt: "keyboardHookEnabled (snd (attempt env cs w)) = keyboardHookEnabled w"
  by (induction cs arbitrary: w) (simp_all add: hook_effect split: option.splits)

text \<open>The whole function: the calls are attempted in order; the hook's state is the one
  before the call unless a foreign exception escapes.\<close>

lemma performTextSubstitution_attempt:
  "performTextSubstitution env charCount newText isHtml cursorPos w =
     (case attempt env
        (substitutionCalls env (heldModifiers w) charCount newText isHtml cursorPos) w of
        (Inl Exception, w') \<Rightarrow> (Inl Exception, w')
      | (Inl ForeignException, w') \<Rightarrow> (Inl ForeignException, w'\<lparr>keyboardHookEnabled := False\<rparr>)
      | (Inr u, w') \<Rightarrow> (Inr (), w'))"
proof -
  let ?cs = "substitutionCalls env (heldModifiers w) charCount newText isHtml cursorPos"
  obtain r w' where run: "attempt env ?cs w = (r, w')"
    by (cases "attempt env ?cs w")
  have hook: "keyboardHookEnabled w' = keyboardHookEnabled w"
    using hook_attempt [of env ?cs w] run by simp
  have same: "w'\<lparr>keyboardHookEnabled := keyboardHookEnabled w\<rparr> = w'"
    using hook by (cases w') simp
  have block: "tryBlock env charCount newText isHtml cursorPos (w\<lparr>keyboardHookEnabled := False\<rparr>)
      = (r, w'\<lparr>keyboardHookEnabled := False\<rparr>)"
    using run by (simp add: tryBlock_attempt held_hook_update attempt_hook_update)
  show ?thesis
  proof (cases r)
    case (Inl e)
    then show ?thesis
      using run block same
      by (cases e) (simp_all add: performTextSubstitution_def setKeyboardHookEnabled_def)
  next
    case (Inr u)
    then show ?thesis
      using run block same
      by (simp add: performTextSubstitution_def setKeyboardHookEnabled_def)
  qed
qed

text \<open>The hook after the call, on each of its exits.\<close>

lemma hook_after_call:
  "keyboardHookEnabled (snd (performTextSubstitution env charCount newText isHtml cursorPos w))
     = (if fst (performTextSubstitution env charCount newText isHtml cursorPos w)
           = Inl ForeignException
        then False else keyboardHookEnabled w)"
proof -
  let ?cs = "substitutionCalls env (heldModifiers w) charCount newText isHtml cursorPos"
  obtain r w' where run: "attempt env ?cs w = (r, w')"
    by (cases "attempt env ?cs w")
  have hook: "keyboardHookEnabled w' = keyboardHookEnabled w"
    using hook_attempt [of env ?cs w] run by simp
  show ?thesis
  proof (cases r)
    case (Inl e)
    then show ?thesis
      using run hook by (cases e) (simp_all add: performTextSubstitution_attempt)
  next
    case (Inr u)
    then show ?thesis
      using run hook by (simp add: performTextSubstitution_attempt)
  qed
qed

subsection \<open>Runs without exceptions, and runs with them\<close>

lemma backup_ok:
  "noFaults env \<Longrightarrow>
   backupAndReleaseModifierKeys env w =
     (Inr (heldModifiers w), exec (map SynthesizeKeyUp (heldModifiers w)) w)"
  by (simp add: backup_attempt andThen_def attempt_noFaults ret_def)

lemma restore_ok:
  "noFaults env \<Longrightarrow> restoreModifierKeys env keys w = (Inr (), exec (map SynthesizeKeyDown keys) w)"
  by (simp add: restore_attempt attempt_noFaults)

lemma performTextSubstitution_ok:
  "noFaults env \<Longrightarrow>
   performTextSubstitution env charCount newText isHtml cursorPos w =
     (Inr (), exec (substitutionCalls env (heldModifiers w) charCount newText isHtml cursorPos) w)"
  by (simp add: performTextSubstitution_attempt attempt_noFaults)

text \<open>Whatever is thrown, the calls made are the first ones of the calls of a run without
  exceptions, and all of them when the function returns normally.\<close>

lemma performTextSubstitution_calls:
  "\<exists>p q. substitutionCalls env (heldModifiers w) charCount newText isHtml cursorPos = p @ q
     \<and> (snd (performTextSubstitution env charCount newText isHtml cursorPos w) = exec p w
        \<or> snd (performTextSubstitution env charCount newText isHtml cursorPos w)
            = (exec p w)\<lparr>keyboardHookEnabled := False\<rparr>)
     \<and> (fst (performTextSubstitution env charCount newText isHtml cursorPos w) = Inr ()
          \<longrightarrow> q = [])"
proof -
  let ?cs = "substitutionCalls env (heldModifiers w) charCount newText isHtml cursorPos"
  obtain r w' where run: "attempt env ?cs w = (r, w')"
    by (cases "attempt env ?cs w")
  from attempt_prefix [of ?cs env w] obtain p q where
    split: "?cs = p @ q" and state: "w' = exec p w" and all: "r = Inr () \<longrightarrow> q = []"
    using run by auto
  have "(snd (performTextSubstitution env charCount newText isHtml cursorPos w) = exec p w
        \<or> snd (performTextSubstitution env charCount newText isHtml cursorPos w)
            = (exec p w)\<lparr>keyboardHookEnabled := False\<rparr>)
     \<and> (fst (performTextSubstitution env charCount newText isHtml cursorPos w) = Inr ()
          \<longrightarrow> q = [])"
  proof (cases r)
    case (Inl e)
    then show ?thesis
      using run state by (cases e) (simp_all add: performTextSubstitution_attempt)
  next
    case (Inr u)
    then show ?thesis
      using run state all by (simp add: performTextSubstitution_attempt)
  qed
  then show ?thesis using split by blast
qed

lemma new_calls:
  "\<exists>p q. substitutionCalls env (heldModifiers w) charCount newText isHtml cursorPos = p @ q
     \<and> trace (snd (performTextSubstitution env charCount newText isHtml cursorPos w)) = trace w @ p
     \<and> clipboard (snd (performTextSubstitution env charCount newText isHtml cursorPos w))
         = clipboard (exec p w)
     \<and> clipboardBackup (snd (performTextSubstitution env charCount newText isHtml cursorPos w))
         = clipboardBackup (exec p w)
     \<and> pendingRestores (snd (performTextSubstitution env charCount newText isHtml cursorPos w))
         = pendingRestores (exec p w)"
proof -
  from performTextSubstitution_calls [of env w charCount newText isHtml cursorPos]
  obtain p q where
    split: "substitutionCalls env (heldModifiers w) charCount newText isHtml cursorPos = p @ q"
    and state: "snd (performTextSubstitution env charCount newText isHtml cursorPos w) = exec p w
        \<or> snd (performTextSubstitution env charCount newText isHtml cursorPos w)
            = (exec p w)\<lparr>keyboardHookEnabled := False\<rparr>"
    by blast
  from state have "trace (snd (performTextSubstitution env charCount newText isHtml cursorPos w))
      = trace w @ p
     \<and> clipboard (snd (performTextSubstitution env charCount newText isHtml cursorPos w))
         = clipboard (exec p w)
     \<and> clipboardBackup (snd (performTextSubstitution env charCount newText isHtml cursorPos w))
         = clipboardBackup (exec p w)
     \<and> pendingRestores (snd (performTextSubstitution env charCount newText isHtml cursorPos w))
         = pendingRestores (exec p w)"
    by (auto simp: trace_exec)
  with split show ?thesis by blast
qed

subsection \<open>Modifier keys and single calls\<close>

lemma noFaults_samples:
  "noFaults notepadEnvironment" "noFaults keepassEnvironment" "noFaults strictEnvironment"
  by (simp_all add: noFaults_def notepadEnvironment_def keepassEnvironment_def
      strictEnvironment_def)

lemma keyDown_round_trip:
  "keyDown (exec (map SynthesizeKeyUp (heldModifiers w) @ map SynthesizeKeyDown (heldModifiers w)) w)
     = keyDown w"
proof
  fix k
  have "k \<in> set (heldModifiers w) \<Longrightarrow> keyDown w k"
    by (simp add: heldModifiers_eq)
  then show "keyDown (exec (map SynthesizeKeyUp (heldModifiers w)
      @ map SynthesizeKeyDown (heldModifiers w)) w) k = keyDown w k"
    by (auto simp: keyDown_exec keysAfter_append keysAfter_ups keysAfter_downs)
qed

lemma held_after_release:
  "heldModifiers (exec (map SynthesizeKeyUp (heldModifiers w)) w) = []"
  by (auto simp: heldModifiers_eq keyDown_exec keysAfter_ups filter_empty_conv)

subsection \<open>Calls of one kind among the calls of a run\<close>

lemma clipboard_bracketed:
  "filter isClipboardCall (bracketed held cs) = filter isClipboardCall cs"
  by (simp add: bracketed_def filter_map o_def)

lemma clipboard_typeCalls: "filter isClipboardCall (typeCalls env held str) = []"
  by (induction str)
    (simp_all add: typeCalls_def typedCharacter_def clipboard_bracketed keystroke_def pause_def)

lemma clipboard_repositionCalls:
  "filter isClipboardCall (repositionCalls env held newText isHtml cursorPos) = []"
  by (simp add: repositionCalls_def clipboard_bracketed leftArrows_def)

lemma clipboard_fields_kept:
  "filter isClipboardCall cs = [] \<Longrightarrow>
   clipboard (exec cs w) = clipboard w \<and> clipboardBackup (exec cs w) = clipboardBackup w
   \<and> pendingRestores (exec cs w) = pendingRestores w"
proof (induction cs arbitrary: w)
  case Nil
  then show ?case by (simp add: exec_Nil)
next
  case (Cons c cs)
  then have c: "\<not> isClipboardCall c" and cs: "filter isClipboardCall cs = []"
    by (auto split: if_splits)
  have "clipboard (effect c w) = clipboard w \<and> clipboardBackup (effect c w) = clipboardBackup w
    \<and> pendingRestores (effect c w) = pendingRestores w"
    using c by (cases c) simp_all
  then show ?case
    using Cons.IH [OF cs, of "effect c w"] by (simp add: exec_Cons)
qed

lemma backspaces_bracketed:
  "sum_list (map backspaces (bracketed held cs)) = sum_list (map backspaces cs)"
proof -
  have "sum_list (map backspaces (map SynthesizeKeyUp ks)) = 0"
    and "sum_list (map backspaces (map SynthesizeKeyDown ks)) = 0" for ks
    by (induction ks) simp_all
  then show ?thesis by (simp add: bracketed_def)
qed

lemma VK_distinct:
  "key_V \<noteq> VK_BACK" "VK_RETURN \<noteq> VK_BACK" "VK_LEFT \<noteq> VK_BACK"
  "key_V \<noteq> VK_LEFT" "VK_RETURN \<noteq> VK_LEFT"
  by (simp_all add: key_V_def VK_BACK_def VK_RETURN_def VK_LEFT_def)

lemma backspaces_typeCalls: "sum_list (map backspaces (typeCalls env held str)) = 0"
  by (induction str)
    (simp_all add: typeCalls_def typedCharacter_def backspaces_bracketed keystroke_def pause_def
      VK_distinct)

lemma backspaces_pasteCalls: "sum_list (map backspaces (pasteCalls held newText isHtml)) = 0"
  by (simp add: pasteCalls_def backspaces_bracketed chord_def VK_distinct)

lemma backspaces_repositionCalls:
  "sum_list (map backspaces (repositionCalls env held newText isHtml cursorPos)) = 0"
proof -
  have "sum_list (map backspaces (replicate n (SynthesizeKeyDownAndUp VK_LEFT))) = 0" for n
    by (induction n) (simp_all add: VK_distinct)
  then show ?thesis
    by (simp add: repositionCalls_def backspaces_bracketed leftArrows_def)
qed

lemma lefts_bracketed:
  "filter (\<lambda>c. c = SynthesizeKeyDownAndUp VK_LEFT) (bracketed held cs)
     = filter (\<lambda>c. c = SynthesizeKeyDownAndUp VK_LEFT) cs"
  by (simp add: bracketed_def filter_map o_def)

lemma lefts_typeCalls:
  "filter (\<lambda>c. c = SynthesizeKeyDownAndUp VK_LEFT) (typeCalls env held str) = []"
  by (induction str)
    (simp_all add: typeCalls_def typedCharacter_def lefts_bracketed keystroke_def pause_def
      VK_distinct)

lemma lefts_pasteCalls:
  "filter (\<lambda>c. c = SynthesizeKeyDownAndUp VK_LEFT) (pasteCalls held newText isHtml) = []"
  by (simp add: pasteCalls_def lefts_bracketed chord_def VK_distinct)

lemma leftCount_eq:
  assumes "0 \<le> cursorPos" and "cursorPos < 2 ^ 31"
    and "length (repositionText env newText isHtml) < 2 ^ 31"
  shows "leftCount env newText isHtml cursorPos
    = max 0 (printableCharacterCount (repositionText env newText isHtml) - cursorPos)"
proof -
  have "s32 (printableCharacterCount (repositionText env newText isHtml) - cursorPos)
      = printableCharacterCount (repositionText env newText isHtml) - cursorPos"
    using printableCharacterCount_bounds [OF assms(3)] assms(1,2) by (intro s32_id) auto
  then show ?thesis by (simp add: leftCount_def)
qed

lemma getActiveExecutableFileName_fails:
  "resolutionFails env \<Longrightarrow> getActiveExecutableFileName env = []"
  by (auto simp: resolutionFails_def getActiveExecutableFileName_def split: option.splits prod.splits)

lemma removeAll_shorter: "x \<in> set xs \<Longrightarrow> length (removeAll x xs) < length xs"
  by (induction xs) (auto simp: less_Suc_eq_le length_removeAll_less_eq)

lemma clipboard_after_paste:
  assumes rest: "filter isClipboardCall rest = []"
  shows "clipboard (exec (SynthesizeBackspaces n # pasteCalls held newText isHtml @ rest) w)
      = (if isHtml then HtmlContent newText else PlainContent newText)
    \<and> clipboardBackup (exec (SynthesizeBackspaces n # pasteCalls held newText isHtml @ rest) w)
      = Some (clipboard w)
    \<and> pendingRestores (exec (SynthesizeBackspaces n # pasteCalls held newText isHtml @ rest) w)
      = pendingRestores w @ [1000]"
proof -
  let ?set = "[BackupClipboard, if isHtml then SetHtml newText else SetText newText]"
  let ?w1 = "exec [SynthesizeBackspaces n] w"
  let ?w2 = "exec ?set ?w1"
  let ?w3 = "exec (bracketed held chord) ?w2"
  let ?w4 = "exec [SingleShotRestoreClipboard 1000] ?w3"
  have split: "exec (SynthesizeBackspaces n # pasteCalls held newText isHtml @ rest) w
      = exec rest ?w4"
    by (simp add: exec_exec pasteCalls_def)
  have k1: "clipboard ?w1 = clipboard w \<and> clipboardBackup ?w1 = clipboardBackup w
      \<and> pendingRestores ?w1 = pendingRestores w"
    by (rule clipboard_fields_kept) simp
  have k2: "clipboard ?w2 = (if isHtml then HtmlContent newText else PlainContent newText)
      \<and> clipboardBackup ?w2 = Some (clipboard ?w1) \<and> pendingRestores ?w2 = pendingRestores ?w1"
    by (simp add: exec_Cons exec_Nil)
  have k3: "clipboard ?w3 = clipboard ?w2 \<and> clipboardBackup ?w3 = clipboardBackup ?w2
      \<and> pendingRestores ?w3 = pendingRestores ?w2"
    by (rule clipboard_fields_kept) (simp add: clipboard_bracketed chord_def)
  have k4: "clipboard ?w4 = clipboard ?w3 \<and> clipboardBackup ?w4 = clipboardBackup ?w3
      \<and> pendingRestores ?w4 = pendingRestores ?w3 @ [1000]"
    by (simp add: exec_Cons exec_Nil)
  have k5: "clipboard (exec rest ?w4) = clipboard ?w4
      \<and> clipboardBackup (exec rest ?w4) = clipboardBackup ?w4
      \<and> pendingRestores (exec rest ?w4) = pendingRestores ?w4"
    by (rule clipboard_fields_kept [OF rest])
  show ?thesis
    unfolding split using k1 k2 k3 k4 k5 by simp
qed

subsection \<open>The sample inputs, evaluated\<close>

lemma noFaults_moduleQueryFails: "noFaults moduleQueryFailsEnvironment"
  by (simp add: noFaults_def moduleQueryFailsEnvironment_def notepadEnvironment_def)

lemma name_notepad: "getActiveExecutableFileName notepadEnvironment = ascii ''notepad.exe''"
  by (simp add: getActiveExecutableFileName_def notepadEnvironment_def ascii_def fileName_def
      fromNativeSeparators_def fromWCharArray_def)

lemma name_keepass: "getActiveExecutableFileName keepassEnvironment = ascii ''KeePass.exe''"
  by (simp add: getActiveExecutableFileName_def keepassEnvironment_def notepadEnvironment_def
      ascii_def fileName_def fromNativeSeparators_def fromWCharArray_def)

lemma verdict_notepad:
  "\<not> isSensitiveApplication notepadEnvironment (getActiveExecutableFileName notepadEnvironment)"
  unfolding name_notepad by (simp add: notepadEnvironment_def ascii_def)

lemma verdict_keepass:
  "isSensitiveApplication keepassEnvironment (getActiveExecutableFileName keepassEnvironment)"
  unfolding name_keepass by (simp add: keepassEnvironment_def notepadEnvironment_def)

lemma fails_samples:
  "resolutionFails strictEnvironment" "resolutionFails moduleQueryFailsEnvironment"
  by (simp_all add: resolutionFails_def strictEnvironment_def moduleQueryFailsEnvironment_def
      notepadEnvironment_def)

lemma held_samples: "heldModifiers idleWorld = []" "heldModifiers shiftHeldWorld = [VK_LSHIFT]"
  by (simp_all add: heldModifiers_def shiftHeldWorld_def idleWorld_def GetKeyState_def
      modifierKeys_def VK_LCONTROL_def VK_RCONTROL_def VK_LMENU_def VK_RMENU_def VK_LSHIFT_def
      VK_RSHIFT_def VK_LWIN_def VK_RWIN_def)

lemma fields_samples:
  "trace idleWorld = []" "trace shiftHeldWorld = []"
  "clipboard shiftHeldWorld = PlainContent (ascii ''old'')"
  "pendingRestores shiftHeldWorld = []"
  "keyboardHookEnabled shiftHeldWorld"
  by (simp_all add: shiftHeldWorld_def idleWorld_def)

lemma rendering_samples:
  "htmlToPlainText keepassEnvironment boldHtml = ascii ''Hi'' @ [LineFeed] @ ascii ''There''"
  "htmlToPlainText keepassEnvironment imageHtml = [0x41, 0xFFFC, 0x42]"
  by (simp_all add: keepassEnvironment_def notepadEnvironment_def sampleRenderer_def
      boldHtml_def imageHtml_def ascii_def)

lemma delay_samples:
  "delayBetweenKeystrokesMs keepassEnvironment = 5"
  "delayBetweenKeystrokesMs notepadEnvironment = 0"
  "delayBetweenKeystrokesMs strictEnvironment = 0"
  by (simp_all add: keepassEnvironment_def notepadEnvironment_def strictEnvironment_def)

section \<open>The claims\<close>

subsection \<open>The keyboard hook\<close>

text \<open>
  Claim C1 says that the keyboard hook's state after \<open>performTextSubstitution\<close> equals its
  state before the call on every exit path, the exceptional ones included. The code
  disables the hook at entry and sets it back on the normal exit and in its handler for
  \<^verbatim>\<open>xmilib::Exception\<close>, but the handler is typed: when an external call throws an
  exception of another type, the hook stays disabled. Here the hook is enabled before
  the call and the first external call throws: with a foreign exception the hook is
  disabled after the call; with an \<^verbatim>\<open>xmilib::Exception\<close>, and in a run that returns
  normally, it is enabled after it.
\<close>

theorem hook_left_disabled:
  "keyboardHookEnabled idleWorld
   \<and> fst (performTextSubstitution foreignExceptionEnvironment 3 (ascii ''hello'') False (- 1)
        idleWorld) = Inl ForeignException
   \<and> \<not> keyboardHookEnabled
       (snd (performTextSubstitution foreignExceptionEnvironment 3 (ascii ''hello'') False (- 1)
          idleWorld))
   \<and> fst (performTextSubstitution exceptionEnvironment 3 (ascii ''hello'') False (- 1)
        idleWorld) = Inl Exception
   \<and> keyboardHookEnabled
       (snd (performTextSubstitution exceptionEnvironment 3 (ascii ''hello'') False (- 1)
          idleWorld))
   \<and> fst (performTextSubstitution notepadEnvironment 3 (ascii ''hello'') False (- 1)
        idleWorld) = Inr ()
   \<and> keyboardHookEnabled
       (snd (performTextSubstitution notepadEnvironment 3 (ascii ''hello'') False (- 1)
          idleWorld))"
proof -
  have before: "keyboardHookEnabled idleWorld"
    by (simp add: idleWorld_def)
  have foreign:
    "performTextSubstitution foreignExceptionEnvironment 3 (ascii ''hello'') False (- 1) idleWorld
       = (Inl ForeignException, idleWorld\<lparr>keyboardHookEnabled := False\<rparr>)"
    by (simp add: performTextSubstitution_def setKeyboardHookEnabled_def tryBlock_def andThen_def
        synthesizeBackspaces_def external_def foreignExceptionEnvironment_def
        notepadEnvironment_def idleWorld_def)
  have raised:
    "fst (performTextSubstitution exceptionEnvironment 3 (ascii ''hello'') False (- 1) idleWorld)
       = Inl Exception"
    by (simp add: performTextSubstitution_def setKeyboardHookEnabled_def tryBlock_def andThen_def
        synthesizeBackspaces_def external_def exceptionEnvironment_def notepadEnvironment_def
        idleWorld_def)
  have returned:
    "fst (performTextSubstitution notepadEnvironment 3 (ascii ''hello'') False (- 1) idleWorld)
       = Inr ()"
    by (simp add: performTextSubstitution_ok [OF noFaults_samples(1)])
  show ?thesis
    using before foreign raised returned
      hook_after_call [of exceptionEnvironment 3 "ascii ''hello''" False "- 1" idleWorld]
      hook_after_call [of notepadEnvironment 3 "ascii ''hello''" False "- 1" idleWorld]
    by simp
qed

subsection \<open>The printable character count\<close>

text \<open>
  Claim C2. For every string (a \<^verbatim>\<open>QString\<close> has fewer than \<open>2 ^ 31\<close> code units, its size
  being an \<^verbatim>\<open>int\<close>), \<open>printableCharacterCount\<close> returns \<open>max 0 (c - 2 * z - f)\<close>, where \<open>c\<close>
  is the number of code points of the string, \<open>z\<close> the number of them equal to U+200D and
  \<open>f\<close> the number of them in U+1F3FB..U+1F3FF; the result is not negative; the count of
  the empty string is 0 and that of "A" is 1; two code points joined by U+200D count
  as 1, and so does a code point followed by a skin-tone modifier (neither joined code
  point being itself a joiner or a modifier): man, joiner, woman for one, and thumbs-up
  with a skin tone.
\<close>

theorem printableCharacterCount_formula:
  "length str < 2 ^ 31 \<Longrightarrow>
   printableCharacterCount str =
     max 0 (int (length (toUcs4 str)) - 2 * int (zeroWidthJoiners (toUcs4 str))
            - int (fitzpatrickModifiers (toUcs4 str)))
   \<and> 0 \<le> printableCharacterCount str
   \<and> (toUcs4 str = [a, 0x200D, b]
        \<and> a \<noteq> 0x200D \<and> \<not> (0x1f3fb \<le> a \<and> a \<le> 0x1f3ff)
        \<and> b \<noteq> 0x200D \<and> \<not> (0x1f3fb \<le> b \<and> b \<le> 0x1f3ff)
      \<longrightarrow> printableCharacterCount str = 1)
   \<and> (toUcs4 str = [a, m]
        \<and> a \<noteq> 0x200D \<and> \<not> (0x1f3fb \<le> a \<and> a \<le> 0x1f3ff)
        \<and> 0x1f3fb \<le> m \<and> m \<le> 0x1f3ff
      \<longrightarrow> printableCharacterCount str = 1)
   \<and> printableCharacterCount [] = 0
   \<and> printableCharacterCount (ascii ''A'') = 1
   \<and> toUcs4 [0xD83D, 0xDC68, 0x200D, 0xD83D, 0xDC69] = [0x1F468, 0x200D, 0x1F469]
   \<and> printableCharacterCount [0xD83D, 0xDC68, 0x200D, 0xD83D, 0xDC69] = 1
   \<and> toUcs4 [0xD83D, 0xDC4D, 0xD83C, 0xDFFB] = [0x1F44D, 0x1F3FB]
   \<and> printableCharacterCount [0xD83D, 0xDC4D, 0xD83C, 0xDFFB] = 1"
proof (intro conjI impI)
  assume len: "length str < 2 ^ 31"
  show "printableCharacterCount str =
     max 0 (int (length (toUcs4 str)) - 2 * int (zeroWidthJoiners (toUcs4 str))
            - int (fitzpatrickModifiers (toUcs4 str)))"
    by (rule printableCharacterCount_eq [OF len])
  show "0 \<le> printableCharacterCount str"
    by (rule printableCharacterCount_bounds [OF len])
  show "printableCharacterCount str = 1"
    if "toUcs4 str = [a, 0x200D, b]
        \<and> a \<noteq> 0x200D \<and> \<not> (0x1f3fb \<le> a \<and> a \<le> 0x1f3ff)
        \<and> b \<noteq> 0x200D \<and> \<not> (0x1f3fb \<le> b \<and> b \<le> 0x1f3ff)"
    using that joined_pair_count [OF len, of a b] by blast
  show "printableCharacterCount str = 1"
    if "toUcs4 str = [a, m]
        \<and> a \<noteq> 0x200D \<and> \<not> (0x1f3fb \<le> a \<and> a \<le> 0x1f3ff)
        \<and> 0x1f3fb \<le> m \<and> m \<le> 0x1f3ff"
    using that modified_emoji_count [OF len, of a m] by blast
  show "printableCharacterCount [] = 0"
    by (simp add: printableCharacterCount_def s32_def u32_def)
  show "printableCharacterCount (ascii ''A'') = 1"
    by (simp add: ascii_def printableCharacterCount_def isSurrogate_def s32_def u32_def)
  show "toUcs4 [0xD83D, 0xDC68, 0x200D, 0xD83D, 0xDC69] = [0x1F468, 0x200D, 0x1F469]"
    by (simp add: isSurrogate_def isHighSurrogate_def isLowSurrogate_def surrogateToUcs4_def)
  show "printableCharacterCount [0xD83D, 0xDC68, 0x200D, 0xD83D, 0xDC69] = 1"
    by (simp add: printableCharacterCount_def isSurrogate_def isHighSurrogate_def
        isLowSurrogate_def surrogateToUcs4_def s32_def u32_def)
  show "toUcs4 [0xD83D, 0xDC4D, 0xD83C, 0xDFFB] = [0x1F44D, 0x1F3FB]"
    by (simp add: isSurrogate_def isHighSurrogate_def isLowSurrogate_def surrogateToUcs4_def)
  show "printableCharacterCount [0xD83D, 0xDC4D, 0xD83C, 0xDFFB] = 1"
    by (simp add: printableCharacterCount_def isSurrogate_def isHighSurrogate_def
        isLowSurrogate_def surrogateToUcs4_def s32_def u32_def)
qed

text \<open>A string of five code points, three of them joiners: the count is clamped to 0.\<close>

theorem printableCharacterCount_formula_witness:
  "length [0xD83D, 0xDC68, 0x200D, 0xD83D, 0xDC69, 0x200D, 0x200D :: 16 word] < (2::nat) ^ 31
   \<and> toUcs4 [0xD83D, 0xDC68, 0x200D, 0xD83D, 0xDC69, 0x200D, 0x200D]
       = [0x1F468, 0x200D, 0x1F469, 0x200D, 0x200D]
   \<and> zeroWidthJoiners [0x1F468, 0x200D, 0x1F469, 0x200D, 0x200D] = 3
   \<and> fitzpatrickModifiers [0x1F468, 0x200D, 0x1F469, 0x200D, 0x200D] = 0
   \<and> printableCharacterCount [0xD83D, 0xDC68, 0x200D, 0xD83D, 0xDC69, 0x200D, 0x200D] = 0"
proof -
  have len: "length [0xD83D, 0xDC68, 0x200D, 0xD83D, 0xDC69, 0x200D, 0x200D :: 16 word] < (2::nat) ^ 31"
    by simp
  have cs: "toUcs4 [0xD83D, 0xDC68, 0x200D, 0xD83D, 0xDC69, 0x200D, 0x200D]
      = [0x1F468, 0x200D, 0x1F469, 0x200D, 0x200D]"
    by (simp add: isSurrogate_def isHighSurrogate_def isLowSurrogate_def surrogateToUcs4_def)
  have z: "zeroWidthJoiners [0x1F468, 0x200D, 0x1F469, 0x200D, 0x200D] = 3"
    by (simp add: zeroWidthJoiners_def)
  have f: "fitzpatrickModifiers [0x1F468, 0x200D, 0x1F469, 0x200D, 0x200D] = 0"
    by (simp add: fitzpatrickModifiers_def)
  have "printableCharacterCount [0xD83D, 0xDC68, 0x200D, 0xD83D, 0xDC69, 0x200D, 0x200D] = 0"
    unfolding printableCharacterCount_formula [OF len, THEN conjunct1] cs z f by simp
  with len cs z f show ?thesis by (intro conjI)
qed

subsection \<open>Plain text of a snippet\<close>

text \<open>
  Claim C9. \<open>snippetToPlainText\<close> returns a snippet that is not HTML unchanged, its
  object replacement characters included; the conversion from HTML and the removal of
  U+FFFC happen on the HTML branch only.
\<close>

theorem snippetToPlainText_branches:
  "snippetToPlainText env snippet False = snippet
   \<and> snippetToPlainText env snippet True
       = removeAll kObjectReplacementChar (htmlToPlainText env snippet)
   \<and> snippetToPlainText env [0x41, kObjectReplacementChar, 0x42] False
       = [0x41, kObjectReplacementChar, 0x42]"
  by (simp add: snippetToPlainText_def)

subsection \<open>The modifier keys\<close>

text \<open>
  Claim C6. When no call throws, \<open>backupAndReleaseModifierKeys\<close> synthesizes a key-up for
  each of the 8 modifier keys that is down, in the order of the list, and returns exactly
  those keys (none when none is held), after which none of the 8 is reported down;
  \<open>restoreModifierKeys\<close> synthesizes a key-down for every key it is given, in order; and
  the one followed at once by the other leaves the state of the keys as it was.
\<close>

theorem modifier_round_trip:
  "noFaults env \<Longrightarrow>
   length modifierKeys = 8 \<and> distinct modifierKeys
   \<and> fst (backupAndReleaseModifierKeys env w)
       = Inr (filter (\<lambda>k. GetKeyState w k < 0) modifierKeys)
   \<and> trace (snd (backupAndReleaseModifierKeys env w))
       = trace w @ map SynthesizeKeyUp (filter (\<lambda>k. GetKeyState w k < 0) modifierKeys)
   \<and> filter (\<lambda>k. GetKeyState (snd (backupAndReleaseModifierKeys env w)) k < 0) modifierKeys = []
   \<and> fst (restoreModifierKeys env keys w) = Inr ()
   \<and> trace (snd (restoreModifierKeys env keys w)) = trace w @ map SynthesizeKeyDown keys
   \<and> fst (andThen (backupAndReleaseModifierKeys env) (restoreModifierKeys env) w) = Inr ()
   \<and> trace (snd (andThen (backupAndReleaseModifierKeys env) (restoreModifierKeys env) w))
       = trace w @ map SynthesizeKeyUp (filter (\<lambda>k. GetKeyState w k < 0) modifierKeys)
           @ map SynthesizeKeyDown (filter (\<lambda>k. GetKeyState w k < 0) modifierKeys)
   \<and> keyDown (snd (andThen (backupAndReleaseModifierKeys env) (restoreModifierKeys env) w))
       = keyDown w"
proof -
  assume nf: "noFaults env"
  have both: "andThen (backupAndReleaseModifierKeys env) (restoreModifierKeys env) w
      = (Inr (), exec (map SynthesizeKeyUp (heldModifiers w)
           @ map SynthesizeKeyDown (heldModifiers w)) w)"
    by (simp add: andThen_def backup_ok [OF nf] restore_ok [OF nf] exec_exec)
  have "length modifierKeys = 8"
    by (simp add: modifierKeys_def)
  moreover have "filter (\<lambda>k. GetKeyState (snd (backupAndReleaseModifierKeys env w)) k < 0)
      modifierKeys = []"
    using held_after_release [of w] by (simp add: backup_ok [OF nf] heldModifiers_def)
  moreover have "keyDown (snd (andThen (backupAndReleaseModifierKeys env)
      (restoreModifierKeys env) w)) = keyDown w"
    by (simp add: both keyDown_round_trip)
  ultimately show ?thesis
    using distinct_modifierKeys
    by (simp add: both backup_ok [OF nf] restore_ok [OF nf] trace_exec heldModifiers_def)
qed

text \<open>The left Shift key held: it is released, recorded and pressed again. Nothing held:
  the snapshot is empty and nothing is synthesized.\<close>

theorem modifier_round_trip_witness:
  "noFaults notepadEnvironment
   \<and> fst (backupAndReleaseModifierKeys notepadEnvironment shiftHeldWorld) = Inr [VK_LSHIFT]
   \<and> trace (snd (backupAndReleaseModifierKeys notepadEnvironment shiftHeldWorld))
       = [SynthesizeKeyUp VK_LSHIFT]
   \<and> trace (snd (restoreModifierKeys notepadEnvironment [VK_LSHIFT] shiftHeldWorld))
       = [SynthesizeKeyDown VK_LSHIFT]
   \<and> trace (snd (andThen (backupAndReleaseModifierKeys notepadEnvironment)
        (restoreModifierKeys notepadEnvironment) shiftHeldWorld))
       = [SynthesizeKeyUp VK_LSHIFT, SynthesizeKeyDown VK_LSHIFT]
   \<and> keyDown (snd (andThen (backupAndReleaseModifierKeys notepadEnvironment)
        (restoreModifierKeys notepadEnvironment) shiftHeldWorld)) = keyDown shiftHeldWorld
   \<and> fst (backupAndReleaseModifierKeys notepadEnvironment idleWorld) = Inr []
   \<and> trace (snd (backupAndReleaseModifierKeys notepadEnvironment idleWorld)) = []"
proof -
  have nf: "noFaults notepadEnvironment"
    by (rule noFaults_samples)
  have shift: "filter (\<lambda>k. GetKeyState shiftHeldWorld k < 0) modifierKeys = [VK_LSHIFT]"
    by (simp add: shiftHeldWorld_def idleWorld_def GetKeyState_def modifierKeys_def
        VK_LCONTROL_def VK_RCONTROL_def VK_LMENU_def VK_RMENU_def VK_LSHIFT_def VK_RSHIFT_def
        VK_LWIN_def VK_RWIN_def)
  have idle: "filter (\<lambda>k. GetKeyState idleWorld k < 0) modifierKeys = []"
    by (simp add: idleWorld_def GetKeyState_def)
  have t: "trace shiftHeldWorld = []" "trace idleWorld = []"
    by (simp_all add: shiftHeldWorld_def idleWorld_def)
  show ?thesis
    using modifier_round_trip [OF nf, of shiftHeldWorld "[VK_LSHIFT]"]
      modifier_round_trip [OF nf, of idleWorld "[]"] nf
    unfolding shift idle t
    by simp
qed

subsection \<open>Erasing\<close>

text \<open>
  Claim C7. When no call throws, the substitution returns normally and its first call
  synthesizes \<open>max charCount 0\<close> backspaces; no later call synthesizes one. A negative
  count erases nothing and raises nothing.
\<close>

theorem backspaces_clamped:
  "noFaults env \<Longrightarrow>
   fst (performTextSubstitution env charCount newText isHtml cursorPos w) = Inr ()
   \<and> trace (snd (performTextSubstitution env charCount newText isHtml cursorPos w))
       = trace w @ SynthesizeBackspaces (max charCount 0)
           # deliverCalls env (heldModifiers w) newText isHtml
           @ repositionCalls env (heldModifiers w) newText isHtml cursorPos
   \<and> sum_list (map backspaces (drop (length (trace w))
         (trace (snd (performTextSubstitution env charCount newText isHtml cursorPos w)))))
       = max charCount 0
   \<and> sum_list (map backspaces (deliverCalls env (heldModifiers w) newText isHtml
         @ repositionCalls env (heldModifiers w) newText isHtml cursorPos)) = 0"
proof -
  assume nf: "noFaults env"
  have rest: "sum_list (map backspaces (deliverCalls env (heldModifiers w) newText isHtml
         @ repositionCalls env (heldModifiers w) newText isHtml cursorPos)) = 0"
    by (simp add: deliverCalls_def backspaces_pasteCalls backspaces_typeCalls
        backspaces_repositionCalls)
  show ?thesis
    using rest
    by (simp add: performTextSubstitution_ok [OF nf] trace_exec substitutionCalls_def)
qed

text \<open>A count of -5 gives zero backspaces and a normal return; a count of 3 gives 3.\<close>

theorem backspaces_clamped_witness:
  "noFaults notepadEnvironment
   \<and> fst (performTextSubstitution notepadEnvironment (- 5) (ascii ''hi'') False (- 1) idleWorld)
       = Inr ()
   \<and> trace (snd (performTextSubstitution notepadEnvironment (- 5) (ascii ''hi'') False (- 1)
        idleWorld))
       = [SynthesizeBackspaces 0, BackupClipboard, SetText (ascii ''hi''),
          SynthesizeKeyDown VK_LCONTROL, SynthesizeKeyDownAndUp key_V,
          SynthesizeKeyUp VK_LCONTROL, SingleShotRestoreClipboard 1000]
   \<and> sum_list (map backspaces (trace (snd (performTextSubstitution notepadEnvironment (- 5)
        (ascii ''hi'') False (- 1) idleWorld)))) = 0
   \<and> sum_list (map backspaces (trace (snd (performTextSubstitution notepadEnvironment 3
        (ascii ''hi'') False (- 1) idleWorld)))) = 3"
proof -
  have nf: "noFaults notepadEnvironment"
    by (rule noFaults_samples)
  have held: "heldModifiers idleWorld = []" and t: "trace idleWorld = []"
    by (simp_all add: heldModifiers_def idleWorld_def GetKeyState_def)
  have name: "getActiveExecutableFileName notepadEnvironment = ascii ''notepad.exe''"
    by (simp add: getActiveExecutableFileName_def notepadEnvironment_def ascii_def fileName_def
        fromNativeSeparators_def fromWCharArray_def)
  have verdict: "\<not> isSensitiveApplication notepadEnvironment (ascii ''notepad.exe'')"
    by (simp add: notepadEnvironment_def ascii_def)
  have calls: "deliverCalls notepadEnvironment [] (ascii ''hi'') False
      @ repositionCalls notepadEnvironment [] (ascii ''hi'') False (- 1)
    = [BackupClipboard, SetText (ascii ''hi''), SynthesizeKeyDown VK_LCONTROL,
       SynthesizeKeyDownAndUp key_V, SynthesizeKeyUp VK_LCONTROL,
       SingleShotRestoreClipboard 1000]"
    using verdict
    by (simp add: deliverCalls_def name pasteCalls_def bracketed_def chord_def repositionCalls_def)
  show ?thesis
    using backspaces_clamped [OF nf, of "- 5" "ascii ''hi''" False "- 1" idleWorld]
      backspaces_clamped [OF nf, of 3 "ascii ''hi''" False "- 1" idleWorld] nf
    unfolding held t
    by (simp add: calls)
qed

subsection \<open>Typing into a sensitive application\<close>

text \<open>
  Claim C3. When the foreground application is sensitive, HTML is converted to plain text
  with U+FFFC removed, and each character of the result is synthesized on its own: the
  held modifiers are released, the character is sent (Enter, \<open>VK_RETURN\<close>, for a line
  feed, a Unicode key event otherwise), the modifiers are pressed again, and the
  configured delay, when positive, is waited. These are the calls of a run in which
  nothing is thrown; in any run the calls made are the first ones of them. No call of
  any run touches the clipboard, whose content, backup and pending restorations stay as
  they were.
\<close>

theorem type_strategy:
  "isSensitiveApplication env (getActiveExecutableFileName env) \<Longrightarrow>
   (let held = heldModifiers w;
        calls = [SynthesizeBackspaces (max charCount 0)]
          @ concat (map
              (\<lambda>c. map SynthesizeKeyUp held
                 @ [if c = LineFeed then SynthesizeKeyDownAndUp VK_RETURN
                    else SynthesizeUnicodeKeyDownAndUp c]
                 @ map SynthesizeKeyDown held
                 @ (if delayBetweenKeystrokesMs env > 0
                    then [Msleep (delayBetweenKeystrokesMs env)] else []))
              (if isHtml then removeAll kObjectReplacementChar (htmlToPlainText env newText)
               else newText))
          @ repositionCalls env held newText isHtml cursorPos;
        result = performTextSubstitution env charCount newText isHtml cursorPos w;
        new = drop (length (trace w)) (trace (snd result))
    in trace (snd result) = trace w @ new
       \<and> (\<exists>n. new = take n calls)
       \<and> filter isClipboardCall calls = []
       \<and> filter isClipboardCall new = []
       \<and> clipboard (snd result) = clipboard w
       \<and> clipboardBackup (snd result) = clipboardBackup w
       \<and> pendingRestores (snd result) = pendingRestores w
       \<and> (noFaults env \<longrightarrow> fst result = Inr () \<and> new = calls))"
proof -
  assume sensitive: "isSensitiveApplication env (getActiveExecutableFileName env)"
  let ?h = "heldModifiers w"
  let ?calls = "[SynthesizeBackspaces (max charCount 0)]
          @ concat (map
              (\<lambda>c. map SynthesizeKeyUp ?h
                 @ [if c = LineFeed then SynthesizeKeyDownAndUp VK_RETURN
                    else SynthesizeUnicodeKeyDownAndUp c]
                 @ map SynthesizeKeyDown ?h
                 @ (if delayBetweenKeystrokesMs env > 0
                    then [Msleep (delayBetweenKeystrokesMs env)] else []))
              (if isHtml then removeAll kObjectReplacementChar (htmlToPlainText env newText)
               else newText))
          @ repositionCalls env ?h newText isHtml cursorPos"
  let ?result = "performTextSubstitution env charCount newText isHtml cursorPos w"
  let ?cs = "substitutionCalls env ?h charCount newText isHtml cursorPos"
  have typed: "typedCharacter env ?h
      = (\<lambda>c. map SynthesizeKeyUp ?h
                 @ [if c = LineFeed then SynthesizeKeyDownAndUp VK_RETURN
                    else SynthesizeUnicodeKeyDownAndUp c]
                 @ map SynthesizeKeyDown ?h
                 @ (if delayBetweenKeystrokesMs env > 0
                    then [Msleep (delayBetweenKeystrokesMs env)] else []))"
    by (rule ext) (simp add: typedCharacter_def bracketed_def keystroke_def pause_def)
  have cs: "?cs = ?calls"
    using sensitive
    by (simp add: substitutionCalls_def deliverCalls_def typeCalls_def snippetToPlainText_def
        typed)
  have quiet: "filter isClipboardCall ?cs = []"
    using sensitive
    by (simp add: substitutionCalls_def deliverCalls_def clipboard_typeCalls
        clipboard_repositionCalls)
  from new_calls [of env w charCount newText isHtml cursorPos] obtain p q where
    split: "?cs = p @ q" and tr: "trace (snd ?result) = trace w @ p"
    and fields: "clipboard (snd ?result) = clipboard (exec p w)"
      "clipboardBackup (snd ?result) = clipboardBackup (exec p w)"
      "pendingRestores (snd ?result) = pendingRestores (exec p w)"
    by blast
  have new: "drop (length (trace w)) (trace (snd ?result)) = p"
    by (simp add: tr)
  have p_quiet: "filter isClipboardCall p = []"
    using quiet split by simp
  have take: "p = take (length p) ?calls"
    using split cs by simp
  have kept: "clipboard (exec p w) = clipboard w \<and> clipboardBackup (exec p w) = clipboardBackup w
      \<and> pendingRestores (exec p w) = pendingRestores w"
    by (rule clipboard_fields_kept [OF p_quiet])
  have complete: "fst ?result = Inr () \<and> p = ?calls" if nf: "noFaults env"
  proof -
    have "?result = (Inr (), exec ?cs w)"
      by (rule performTextSubstitution_ok [OF nf])
    then have "fst ?result = Inr ()" and "trace (snd ?result) = trace w @ ?cs"
      by (simp_all add: trace_exec)
    then show ?thesis using tr cs by simp
  qed
  have "\<exists>n. p = take n ?calls"
    using take by blast
  then show ?thesis
    unfolding Let_def new
    using tr quiet cs p_quiet fields kept complete by simp
qed

text \<open>KeePass in the foreground, the HTML of "Hi", a line break and "There", a delay of
  5 ms: eight keystrokes, the third of them Enter.\<close>

theorem type_strategy_witness:
  "noFaults keepassEnvironment
   \<and> isSensitiveApplication keepassEnvironment (getActiveExecutableFileName keepassEnvironment)
   \<and> fst (performTextSubstitution keepassEnvironment 0 boldHtml True (- 1) idleWorld) = Inr ()
   \<and> trace (snd (performTextSubstitution keepassEnvironment 0 boldHtml True (- 1) idleWorld))
       = [SynthesizeBackspaces 0,
          SynthesizeUnicodeKeyDownAndUp (of_char CHR ''H''), Msleep 5,
          SynthesizeUnicodeKeyDownAndUp (of_char CHR ''i''), Msleep 5,
          SynthesizeKeyDownAndUp VK_RETURN, Msleep 5,
          SynthesizeUnicodeKeyDownAndUp (of_char CHR ''T''), Msleep 5,
          SynthesizeUnicodeKeyDownAndUp (of_char CHR ''h''), Msleep 5,
          SynthesizeUnicodeKeyDownAndUp (of_char CHR ''e''), Msleep 5,
          SynthesizeUnicodeKeyDownAndUp (of_char CHR ''r''), Msleep 5,
          SynthesizeUnicodeKeyDownAndUp (of_char CHR ''e''), Msleep 5]
   \<and> clipboard (snd (performTextSubstitution keepassEnvironment 0 boldHtml True (- 1) idleWorld))
       = clipboard idleWorld"
proof -
  have nf: "noFaults keepassEnvironment"
    by (rule noFaults_samples)
  note sens = verdict_keepass
  have typed: "removeAll kObjectReplacementChar (ascii ''Hi'' @ [LineFeed] @ ascii ''There'')
      = [of_char CHR ''H'', of_char CHR ''i'', LineFeed, of_char CHR ''T'', of_char CHR ''h'',
         of_char CHR ''e'', of_char CHR ''r'', of_char CHR ''e'']"
    by (simp add: ascii_def kObjectReplacementChar_def LineFeed_def)
  have none: "repositionCalls keepassEnvironment [] boldHtml True (- 1) = []"
    by (simp add: repositionCalls_def)
  show ?thesis
    using type_strategy [OF sens, of idleWorld 0 True boldHtml "- 1"] nf sens
    unfolding Let_def held_samples fields_samples rendering_samples delay_samples if_True typed
      none
    by (simp add: LineFeed_def)
qed

subsection \<open>Pasting into any other application\<close>

text \<open>
  Claim C4. When the foreground application is not sensitive, the calls are, in this
  order: the backspaces, the backup of the clipboard, the replacement set as HTML when
  the flag is set and as text otherwise, the release of the held modifiers, Control down,
  V, Control up, the held modifiers pressed again, and the restoration of the clipboard
  scheduled in 1000 ms. These are the calls of a run in which nothing is thrown; in any
  run the calls made are the first ones of them, so that the clipboard is never set
  before it is backed up. The clipboard is not restored during the call: after a run in
  which nothing is thrown it holds the replacement, the backup holds what it held
  before, and one restoration is pending.
\<close>

theorem paste_strategy:
  "\<not> isSensitiveApplication env (getActiveExecutableFileName env) \<Longrightarrow>
   (let held = heldModifiers w;
        calls = [SynthesizeBackspaces (max charCount 0), BackupClipboard,
            if isHtml then SetHtml newText else SetText newText]
          @ map SynthesizeKeyUp held
          @ [SynthesizeKeyDown VK_LCONTROL, SynthesizeKeyDownAndUp key_V,
             SynthesizeKeyUp VK_LCONTROL]
          @ map SynthesizeKeyDown held
          @ [SingleShotRestoreClipboard 1000]
          @ repositionCalls env held newText isHtml cursorPos;
        result = performTextSubstitution env charCount newText isHtml cursorPos w;
        new = drop (length (trace w)) (trace (snd result))
    in trace (snd result) = trace w @ new
       \<and> (\<exists>n. new = take n calls)
       \<and> filter isClipboardCall (repositionCalls env held newText isHtml cursorPos) = []
       \<and> RestoreClipboard \<notin> set new
       \<and> (noFaults env \<longrightarrow>
            fst result = Inr () \<and> new = calls
            \<and> clipboardBackup (snd result) = Some (clipboard w)
            \<and> clipboard (snd result)
                = (if isHtml then HtmlContent newText else PlainContent newText)
            \<and> pendingRestores (snd result) = pendingRestores w @ [1000]))"
proof -
  assume plain: "\<not> isSensitiveApplication env (getActiveExecutableFileName env)"
  let ?h = "heldModifiers w"
  let ?rest = "repositionCalls env ?h newText isHtml cursorPos"
  let ?calls = "[SynthesizeBackspaces (max charCount 0), BackupClipboard,
            if isHtml then SetHtml newText else SetText newText]
          @ map SynthesizeKeyUp ?h
          @ [SynthesizeKeyDown VK_LCONTROL, SynthesizeKeyDownAndUp key_V,
             SynthesizeKeyUp VK_LCONTROL]
          @ map SynthesizeKeyDown ?h
          @ [SingleShotRestoreClipboard 1000]
          @ ?rest"
  let ?result = "performTextSubstitution env charCount newText isHtml cursorPos w"
  let ?cs = "substitutionCalls env ?h charCount newText isHtml cursorPos"
  have form: "?cs = SynthesizeBackspaces (max charCount 0)
      # pasteCalls ?h newText isHtml @ ?rest"
    using plain by (simp add: substitutionCalls_def deliverCalls_def)
  have cs: "?cs = ?calls"
    unfolding form by (simp add: pasteCalls_def bracketed_def chord_def)
  have rest: "filter isClipboardCall ?rest = []"
    by (rule clipboard_repositionCalls)
  then have "RestoreClipboard \<notin> set ?rest"
    by (auto simp: filter_empty_conv)
  then have no_restore: "RestoreClipboard \<notin> set ?cs"
    unfolding form by (auto simp: pasteCalls_def bracketed_def chord_def)
  from new_calls [of env w charCount newText isHtml cursorPos] obtain p q where
    split: "?cs = p @ q" and tr: "trace (snd ?result) = trace w @ p"
    by blast
  have new: "drop (length (trace w)) (trace (snd ?result)) = p"
    by (simp add: tr)
  have p_no_restore: "RestoreClipboard \<notin> set p"
    using no_restore split by simp
  have "p = take (length p) ?calls"
    using split cs by simp
  then have prefix: "\<exists>n. p = take n ?calls"
    by blast
  have complete: "fst ?result = Inr () \<and> p = ?calls
      \<and> clipboardBackup (snd ?result) = Some (clipboard w)
      \<and> clipboard (snd ?result) = (if isHtml then HtmlContent newText else PlainContent newText)
      \<and> pendingRestores (snd ?result) = pendingRestores w @ [1000]" if nf: "noFaults env"
  proof -
    have run: "?result = (Inr (), exec ?cs w)"
      by (rule performTextSubstitution_ok [OF nf])
    then have "trace (snd ?result) = trace w @ ?cs"
      by (simp add: trace_exec)
    then have all: "p = ?calls"
      using tr cs by simp
    have "clipboard (exec ?cs w) = (if isHtml then HtmlContent newText else PlainContent newText)
      \<and> clipboardBackup (exec ?cs w) = Some (clipboard w)
      \<and> pendingRestores (exec ?cs w) = pendingRestores w @ [1000]"
      unfolding form by (rule clipboard_after_paste [OF rest])
    then show ?thesis
      using run all by simp
  qed
  show ?thesis
    unfolding Let_def new
    using tr prefix rest p_no_restore complete by simp
qed

text \<open>Notepad in the foreground, "hello" for 3 characters, the left Shift key held.\<close>

theorem paste_strategy_witness:
  "noFaults notepadEnvironment
   \<and> \<not> isSensitiveApplication notepadEnvironment (getActiveExecutableFileName notepadEnvironment)
   \<and> fst (performTextSubstitution notepadEnvironment 3 (ascii ''hello'') False (- 1)
        shiftHeldWorld) = Inr ()
   \<and> trace (snd (performTextSubstitution notepadEnvironment 3 (ascii ''hello'') False (- 1)
        shiftHeldWorld))
       = [SynthesizeBackspaces 3, BackupClipboard, SetText (ascii ''hello''),
          SynthesizeKeyUp VK_LSHIFT,
          SynthesizeKeyDown VK_LCONTROL, SynthesizeKeyDownAndUp key_V,
          SynthesizeKeyUp VK_LCONTROL,
          SynthesizeKeyDown VK_LSHIFT,
          SingleShotRestoreClipboard 1000]
   \<and> clipboardBackup (snd (performTextSubstitution notepadEnvironment 3 (ascii ''hello'') False
        (- 1) shiftHeldWorld)) = Some (PlainContent (ascii ''old''))
   \<and> clipboard (snd (performTextSubstitution notepadEnvironment 3 (ascii ''hello'') False
        (- 1) shiftHeldWorld)) = PlainContent (ascii ''hello'')
   \<and> pendingRestores (snd (performTextSubstitution notepadEnvironment 3 (ascii ''hello'') False
        (- 1) shiftHeldWorld)) = [1000]"
proof -
  have nf: "noFaults notepadEnvironment"
    by (rule noFaults_samples)
  note plain = verdict_notepad
  have none: "repositionCalls notepadEnvironment [VK_LSHIFT] (ascii ''hello'') False (- 1) = []"
    by (simp add: repositionCalls_def)
  show ?thesis
    using paste_strategy [OF plain, of shiftHeldWorld 3 False "ascii ''hello''" "- 1"] nf plain
    unfolding Let_def held_samples fields_samples none
    by simp
qed

subsection \<open>Repositioning the cursor\<close>

text \<open>
  Claim C5. When no call throws (the cursor position being a \<^verbatim>\<open>qint32\<close> and the counted text
  a \<^verbatim>\<open>QString\<close>), a negative cursor position synthesizes no Left-arrow key; otherwise,
  after the erasing and the delivery, the held modifiers are released once,
  \<open>max 0 (printableCharacterCount t - cursorPos)\<close> Left-arrow keys are synthesized, where
  \<open>t\<close> is the replacement rendered as plain text, and the modifiers are pressed again once.
\<close>

theorem reposition_left_arrows:
  "noFaults env \<Longrightarrow> cursorPos < 2 ^ 31 \<Longrightarrow>
   length (if isHtml then htmlToPlainText env newText else newText) < 2 ^ 31 \<Longrightarrow>
   fst (performTextSubstitution env charCount newText isHtml cursorPos w) = Inr ()
   \<and> trace (snd (performTextSubstitution env charCount newText isHtml cursorPos w))
       = trace w @ SynthesizeBackspaces (max charCount 0)
           # deliverCalls env (heldModifiers w) newText isHtml
           @ (if cursorPos < 0 then []
              else map SynthesizeKeyUp (heldModifiers w)
                @ replicate
                    (nat (max 0 (printableCharacterCount
                       (if isHtml then htmlToPlainText env newText else newText) - cursorPos)))
                    (SynthesizeKeyDownAndUp VK_LEFT)
                @ map SynthesizeKeyDown (heldModifiers w))
   \<and> int (length (filter (\<lambda>c. c = SynthesizeKeyDownAndUp VK_LEFT)
         (drop (length (trace w))
           (trace (snd (performTextSubstitution env charCount newText isHtml cursorPos w))))))
       = (if cursorPos < 0 then 0
          else max 0 (printableCharacterCount
                 (if isHtml then htmlToPlainText env newText else newText) - cursorPos))"
proof -
  assume nf: "noFaults env" and pos: "cursorPos < 2 ^ 31"
    and len: "length (if isHtml then htmlToPlainText env newText else newText) < 2 ^ 31"
  let ?count = "max 0 (printableCharacterCount
      (if isHtml then htmlToPlainText env newText else newText) - cursorPos)"
  let ?cs = "substitutionCalls env (heldModifiers w) charCount newText isHtml cursorPos"
  have run: "performTextSubstitution env charCount newText isHtml cursorPos w = (Inr (), exec ?cs w)"
    by (rule performTextSubstitution_ok [OF nf])
  have dr: "drop (length (trace w)) (trace (exec ?cs w)) = ?cs"
    by (simp add: trace_exec)
  have no_lefts: "filter (\<lambda>c. c = SynthesizeKeyDownAndUp VK_LEFT)
      (deliverCalls env (heldModifiers w) newText isHtml) = []"
    by (simp add: deliverCalls_def lefts_pasteCalls lefts_typeCalls)
  have reposition: "repositionCalls env (heldModifiers w) newText isHtml cursorPos
      = (if cursorPos < 0 then []
         else map SynthesizeKeyUp (heldModifiers w)
           @ replicate (nat ?count) (SynthesizeKeyDownAndUp VK_LEFT)
           @ map SynthesizeKeyDown (heldModifiers w))"
  proof (cases "cursorPos < 0")
    case True
    then show ?thesis by (simp add: repositionCalls_def)
  next
    case False
    then have "leftCount env newText isHtml cursorPos = ?count"
      using leftCount_eq [of cursorPos env newText isHtml] pos len
      by (simp add: repositionText_def)
    then show ?thesis
      using False by (simp add: repositionCalls_def bracketed_def leftArrows_def)
  qed
  have count: "int (length (filter (\<lambda>c. c = SynthesizeKeyDownAndUp VK_LEFT) ?cs))
      = (if cursorPos < 0 then 0 else ?count)"
    unfolding substitutionCalls_def reposition
    by (simp add: no_lefts filter_map o_def)
  have shape: "trace (exec ?cs w) = trace w @ SynthesizeBackspaces (max charCount 0)
      # deliverCalls env (heldModifiers w) newText isHtml
      @ repositionCalls env (heldModifiers w) newText isHtml cursorPos"
    by (simp add: trace_exec substitutionCalls_def)
  show ?thesis
    unfolding run fst_conv snd_conv dr
    using count shape unfolding reposition by simp
qed

text \<open>A printable count of 5 and a cursor position of 2 give 3 Left-arrow keys, inside one
  release and restoration of the left Shift key; a position of -1 gives none.\<close>

theorem reposition_left_arrows_witness:
  "noFaults notepadEnvironment
   \<and> (2::int) < 2 ^ 31 \<and> length (ascii ''hello'') < (2::nat) ^ 31
   \<and> printableCharacterCount (ascii ''hello'') = 5
   \<and> trace (snd (performTextSubstitution notepadEnvironment 3 (ascii ''hello'') False 2
        shiftHeldWorld))
       = [SynthesizeBackspaces 3, BackupClipboard, SetText (ascii ''hello''),
          SynthesizeKeyUp VK_LSHIFT,
          SynthesizeKeyDown VK_LCONTROL, SynthesizeKeyDownAndUp key_V,
          SynthesizeKeyUp VK_LCONTROL,
          SynthesizeKeyDown VK_LSHIFT,
          SingleShotRestoreClipboard 1000,
          SynthesizeKeyUp VK_LSHIFT,
          SynthesizeKeyDownAndUp VK_LEFT, SynthesizeKeyDownAndUp VK_LEFT,
          SynthesizeKeyDownAndUp VK_LEFT,
          SynthesizeKeyDown VK_LSHIFT]
   \<and> int (length (filter (\<lambda>c. c = SynthesizeKeyDownAndUp VK_LEFT)
         (trace (snd (performTextSubstitution notepadEnvironment 3 (ascii ''hello'') False 2
            shiftHeldWorld))))) = 3
   \<and> int (length (filter (\<lambda>c. c = SynthesizeKeyDownAndUp VK_LEFT)
         (trace (snd (performTextSubstitution notepadEnvironment 3 (ascii ''hello'') False (- 1)
            shiftHeldWorld))))) = 0"
proof -
  have nf: "noFaults notepadEnvironment"
    by (rule noFaults_samples)
  have pos: "(2::int) < 2 ^ 31" "(- 1::int) < 2 ^ 31"
    by simp_all
  have len: "length (if False then htmlToPlainText notepadEnvironment (ascii ''hello'')
      else ascii ''hello'') < (2::nat) ^ 31"
    by (simp add: ascii_def)
  have len': "length (ascii ''hello'') < (2::nat) ^ 31"
    by (simp add: ascii_def)
  have count: "printableCharacterCount (ascii ''hello'') = 5"
    by (simp add: ascii_def printableCharacterCount_def isSurrogate_def s32_def u32_def)
  have deliver: "deliverCalls notepadEnvironment [VK_LSHIFT] (ascii ''hello'') False
      = [BackupClipboard, SetText (ascii ''hello''), SynthesizeKeyUp VK_LSHIFT,
         SynthesizeKeyDown VK_LCONTROL, SynthesizeKeyDownAndUp key_V,
         SynthesizeKeyUp VK_LCONTROL, SynthesizeKeyDown VK_LSHIFT,
         SingleShotRestoreClipboard 1000]"
    using verdict_notepad by (simp add: deliverCalls_def pasteCalls_def bracketed_def chord_def)
  have three: "replicate (nat (max 0 (5 - 2))) (SynthesizeKeyDownAndUp VK_LEFT)
      = [SynthesizeKeyDownAndUp VK_LEFT, SynthesizeKeyDownAndUp VK_LEFT,
         SynthesizeKeyDownAndUp VK_LEFT]"
    by (simp add: numeral_3_eq_3)
  show ?thesis
    using reposition_left_arrows [OF nf pos(1) len, of 3 shiftHeldWorld]
      reposition_left_arrows [OF nf pos(2) len, of 3 shiftHeldWorld] nf len' count
    unfolding held_samples fields_samples if_False count deliver three
    by (simp add: VK_distinct)
qed

subsection \<open>An unresolved foreground application\<close>

text \<open>
  Claim C8, as the code has it. When the process handle cannot be opened or the query of
  the module name fails, \<open>getActiveExecutableFileName\<close> returns the null string and raises
  nothing; the substitution goes on, the empty name is passed to
  \<open>isSensitiveApplication\<close>, and the branch taken is the one of its verdict: pasting when
  the empty name is not sensitive, typing when it is.
\<close>

theorem unresolved_name_forwarded:
  "resolutionFails env \<Longrightarrow> noFaults env \<Longrightarrow>
   getActiveExecutableFileName env = []
   \<and> fst (performTextSubstitution env charCount newText isHtml cursorPos w) = Inr ()
   \<and> trace (snd (performTextSubstitution env charCount newText isHtml cursorPos w))
       = trace w @ SynthesizeBackspaces (max charCount 0)
           # (if isSensitiveApplication env []
              then typeCalls env (heldModifiers w) (snippetToPlainText env newText isHtml)
              else pasteCalls (heldModifiers w) newText isHtml)
           @ repositionCalls env (heldModifiers w) newText isHtml cursorPos"
proof -
  assume fails: "resolutionFails env" and nf: "noFaults env"
  have name: "getActiveExecutableFileName env = []"
    by (rule getActiveExecutableFileName_fails [OF fails])
  show ?thesis
    by (simp add: performTextSubstitution_ok [OF nf] trace_exec substitutionCalls_def
        deliverCalls_def name)
qed

text \<open>The query of the module name fails, and the empty name is not sensitive: the
  replacement is pasted.\<close>

theorem unresolved_name_forwarded_witness:
  "resolutionFails moduleQueryFailsEnvironment \<and> noFaults moduleQueryFailsEnvironment
   \<and> getActiveExecutableFileName moduleQueryFailsEnvironment = []
   \<and> \<not> isSensitiveApplication moduleQueryFailsEnvironment []
   \<and> fst (performTextSubstitution moduleQueryFailsEnvironment 0 (ascii ''hi'') False (- 1)
        idleWorld) = Inr ()
   \<and> trace (snd (performTextSubstitution moduleQueryFailsEnvironment 0 (ascii ''hi'') False (- 1)
        idleWorld))
       = [SynthesizeBackspaces 0, BackupClipboard, SetText (ascii ''hi''),
          SynthesizeKeyDown VK_LCONTROL, SynthesizeKeyDownAndUp key_V,
          SynthesizeKeyUp VK_LCONTROL, SingleShotRestoreClipboard 1000]"
proof -
  have fails: "resolutionFails moduleQueryFailsEnvironment"
    by (rule fails_samples)
  have nf: "noFaults moduleQueryFailsEnvironment"
    by (rule noFaults_moduleQueryFails)
  have verdict: "\<not> isSensitiveApplication moduleQueryFailsEnvironment []"
    by (simp add: moduleQueryFailsEnvironment_def notepadEnvironment_def ascii_def)
  have none: "repositionCalls moduleQueryFailsEnvironment [] (ascii ''hi'') False (- 1) = []"
    by (simp add: repositionCalls_def)
  show ?thesis
    using unresolved_name_forwarded [OF fails nf, of 0 "ascii ''hi''" False "- 1" idleWorld]
      fails nf verdict
    unfolding held_samples fields_samples none
    by (simp add: pasteCalls_def bracketed_def chord_def)
qed

text \<open>
  The claim as stated, that the unresolved name is treated as not sensitive and the
  replacement pasted, fails where the manager holds the empty name for sensitive: no
  handle can be opened, the name is empty, and the replacement is typed; the clipboard
  is not backed up.
\<close>

theorem unresolved_name_typed_counterexample:
  "resolutionFails strictEnvironment
   \<and> getActiveExecutableFileName strictEnvironment = []
   \<and> isSensitiveApplication strictEnvironment []
   \<and> fst (performTextSubstitution strictEnvironment 0 (ascii ''hi'') False (- 1) idleWorld)
       = Inr ()
   \<and> trace (snd (performTextSubstitution strictEnvironment 0 (ascii ''hi'') False (- 1)
        idleWorld))
       = [SynthesizeBackspaces 0,
          SynthesizeUnicodeKeyDownAndUp (of_char CHR ''h''),
          SynthesizeUnicodeKeyDownAndUp (of_char CHR ''i'')]
   \<and> BackupClipboard \<notin> set (trace (snd (performTextSubstitution strictEnvironment 0
        (ascii ''hi'') False (- 1) idleWorld)))"
proof -
  have fails: "resolutionFails strictEnvironment"
    by (rule fails_samples)
  have nf: "noFaults strictEnvironment"
    by (rule noFaults_samples)
  have name: "getActiveExecutableFileName strictEnvironment = []"
    by (rule getActiveExecutableFileName_fails [OF fails])
  have verdict: "isSensitiveApplication strictEnvironment []"
    by (simp add: strictEnvironment_def)
  have calls: "substitutionCalls strictEnvironment [] 0 (ascii ''hi'') False (- 1)
      = [SynthesizeBackspaces 0,
          SynthesizeUnicodeKeyDownAndUp (of_char CHR ''h''),
          SynthesizeUnicodeKeyDownAndUp (of_char CHR ''i'')]"
    using verdict
    by (simp add: substitutionCalls_def deliverCalls_def name typeCalls_def typedCharacter_def
        bracketed_def keystroke_def pause_def delay_samples repositionCalls_def
        snippetToPlainText_def ascii_def LineFeed_def)
  have run: "performTextSubstitution strictEnvironment 0 (ascii ''hi'') False (- 1) idleWorld
      = (Inr (), exec [SynthesizeBackspaces 0,
          SynthesizeUnicodeKeyDownAndUp (of_char CHR ''h''),
          SynthesizeUnicodeKeyDownAndUp (of_char CHR ''i'')] idleWorld)"
    using performTextSubstitution_ok [OF nf, of 0 "ascii ''hi''" False "- 1" idleWorld]
    unfolding held_samples calls .
  show ?thesis
    unfolding run using fails name verdict
    by (simp add: trace_exec fields_samples)
qed

subsection \<open>The object replacement character and the cursor\<close>

text \<open>
  Claim C10. For an HTML replacement delivered to a sensitive application with a cursor
  position, the text typed is the rendering with U+FFFC removed, while the Left-arrow
  count is computed from the rendering itself; whenever the rendering holds a U+FFFC
  (an embedded image), the counted text is longer than the typed one.
\<close>

theorem reposition_counts_object_replacement:
  "noFaults env \<Longrightarrow> isSensitiveApplication env (getActiveExecutableFileName env) \<Longrightarrow>
   kObjectReplacementChar \<in> set (htmlToPlainText env newText) \<Longrightarrow> 0 \<le> cursorPos \<Longrightarrow>
   snippetToPlainText env newText True
     = removeAll kObjectReplacementChar (htmlToPlainText env newText)
   \<and> repositionText env newText True = htmlToPlainText env newText
   \<and> length (snippetToPlainText env newText True) < length (repositionText env newText True)
   \<and> trace (snd (performTextSubstitution env charCount newText True cursorPos w))
       = trace w @ SynthesizeBackspaces (max charCount 0)
           # typeCalls env (heldModifiers w)
               (removeAll kObjectReplacementChar (htmlToPlainText env newText))
           @ map SynthesizeKeyUp (heldModifiers w)
           @ replicate
               (nat (max 0 (s32 (printableCharacterCount (htmlToPlainText env newText)
                  - cursorPos))))
               (SynthesizeKeyDownAndUp VK_LEFT)
           @ map SynthesizeKeyDown (heldModifiers w)"
proof -
  assume nf: "noFaults env"
    and sensitive: "isSensitiveApplication env (getActiveExecutableFileName env)"
    and image: "kObjectReplacementChar \<in> set (htmlToPlainText env newText)"
    and pos: "0 \<le> cursorPos"
  have shorter: "length (removeAll kObjectReplacementChar (htmlToPlainText env newText))
      < length (htmlToPlainText env newText)"
    by (rule removeAll_shorter [OF image])
  show ?thesis
    using shorter sensitive pos
    by (simp add: performTextSubstitution_ok [OF nf] trace_exec substitutionCalls_def
        deliverCalls_def repositionCalls_def bracketed_def leftArrows_def leftCount_def
        snippetToPlainText_def repositionText_def)
qed

text \<open>A letter, an image and a letter: two characters are typed, and the cursor moves
  three times to the left.\<close>

theorem reposition_counts_object_replacement_witness:
  "noFaults keepassEnvironment
   \<and> isSensitiveApplication keepassEnvironment (getActiveExecutableFileName keepassEnvironment)
   \<and> kObjectReplacementChar \<in> set (htmlToPlainText keepassEnvironment imageHtml)
   \<and> snippetToPlainText keepassEnvironment imageHtml True = [0x41, 0x42]
   \<and> repositionText keepassEnvironment imageHtml True = [0x41, 0xFFFC, 0x42]
   \<and> trace (snd (performTextSubstitution keepassEnvironment 0 imageHtml True 0 idleWorld))
       = [SynthesizeBackspaces 0,
          SynthesizeUnicodeKeyDownAndUp 0x41, Msleep 5,
          SynthesizeUnicodeKeyDownAndUp 0x42, Msleep 5,
          SynthesizeKeyDownAndUp VK_LEFT, SynthesizeKeyDownAndUp VK_LEFT,
          SynthesizeKeyDownAndUp VK_LEFT]"
proof -
  have nf: "noFaults keepassEnvironment"
    by (rule noFaults_samples)
  note sens = verdict_keepass
  have image: "kObjectReplacementChar \<in> set (htmlToPlainText keepassEnvironment imageHtml)"
    unfolding rendering_samples by (simp add: kObjectReplacementChar_def)
  have pos: "(0::int) \<le> 0"
    by simp
  have typed: "removeAll kObjectReplacementChar [0x41, 0xFFFC, 0x42] = [0x41, 0x42]"
    by (simp add: kObjectReplacementChar_def)
  have count: "printableCharacterCount [0x41, 0xFFFC, 0x42] = 3"
    by (simp add: printableCharacterCount_def isSurrogate_def s32_def u32_def)
  have three: "replicate (nat (max 0 (s32 (3 - 0)))) (SynthesizeKeyDownAndUp VK_LEFT)
      = [SynthesizeKeyDownAndUp VK_LEFT, SynthesizeKeyDownAndUp VK_LEFT,
         SynthesizeKeyDownAndUp VK_LEFT]"
    by (simp add: s32_def numeral_3_eq_3)
  show ?thesis
    using reposition_counts_object_replacement [OF nf sens image pos, of 0 idleWorld] nf sens image
    unfolding held_samples fields_samples rendering_samples typed count three
    by (simp add: typeCalls_def typedCharacter_def bracketed_def keystroke_def pause_def
        delay_samples LineFeed_def)
qed

end
